theory Spec2Isabelle
  imports Main
begin

section \<open>Value objects\<close>

text \<open>
  The model follows \<^verbatim>\<open>src/assets/ddd_workshop.py\<close>. A Python \<^verbatim>\<open>str\<close> is a
  \<^typ>\<open>string\<close>; each \<^typ>\<open>char\<close> stands for one code point below 256.
  Exceptions are values of \<open>error\<close>, returned on the left of a sum.
\<close>

datatype error = ValueError string | AssertionError

datatype account_id = AccountId (aid_value: string)

datatype email = Email (email_value: string)

datatype username = Username (username_value: string)

subsection \<open>The two patterns of \<^verbatim>\<open>re.match\<close>\<close>

text \<open>
  Both patterns are a sequence of quantified character classes between \<^verbatim>\<open>^\<close> and
  \<^verbatim>\<open>$\<close>. \<open>Rep cls lo hi\<close> is the class \<open>cls\<close> repeated \<open>lo\<close> to \<open>hi\<close> times
  (\<open>None\<close>: unbounded). \<^verbatim>\<open>re.match\<close> starts at position 0 and does not have to
  consume the whole string; without the MULTILINE flag \<^verbatim>\<open>$\<close> holds at the end of
  the string and also just before a newline that is the last character.
\<close>

datatype rx_item = Caret | Dollar | Rep "char \<Rightarrow> bool" nat "nat option"

fun rx_from :: "rx_item list \<Rightarrow> nat \<Rightarrow> string \<Rightarrow> bool" where
  "rx_from [] pos rest = True"
| "rx_from (Caret # items) pos rest = (pos = 0 \<and> rx_from items pos rest)"
| "rx_from (Dollar # items) pos rest =
     ((rest = [] \<or> rest = [CHR 0x0A]) \<and> rx_from items pos rest)"
| "rx_from (Rep cls lo hi # items) pos rest =
     (let avail = length (takeWhile cls rest);
          top = (case hi of None \<Rightarrow> avail | Some h \<Rightarrow> min h avail)
      in list_ex (\<lambda>k. rx_from items (pos + k) (drop k rest)) [lo..<Suc top])"

definition re_match :: "rx_item list \<Rightarrow> string \<Rightarrow> bool" where
  "re_match pattern s = rx_from pattern 0 s"

text \<open>
  \<^verbatim>\<open>\s\<close> in a \<^verbatim>\<open>str\<close> pattern is Unicode whitespace; below 256 these are the code
  points 9 to 13, 28 to 32, 0x85 and 0xA0.
\<close>

definition is_space :: "char \<Rightarrow> bool" where
  "is_space c =
     (let n = (of_char c :: nat)
      in (9 \<le> n \<and> n \<le> 13) \<or> (28 \<le> n \<and> n \<le> 32) \<or> n = 133 \<or> n = 160)"

definition not_at_space :: "char \<Rightarrow> bool" where
  "not_at_space c = (c \<noteq> CHR ''@'' \<and> \<not> is_space c)"

definition word_char :: "char \<Rightarrow> bool" where
  "word_char c =
     (let n = (of_char c :: nat)
      in (97 \<le> n \<and> n \<le> 122) \<or> (65 \<le> n \<and> n \<le> 90) \<or> (48 \<le> n \<and> n \<le> 57) \<or> n = 95)"

definition lit :: "char \<Rightarrow> rx_item" where
  "lit c = Rep (\<lambda>d. d = c) 1 (Some 1)"

definition email_pattern :: "rx_item list" where
  "email_pattern =
     [Caret, Rep not_at_space 1 None, lit CHR ''@'', Rep not_at_space 1 None,
      lit CHR ''.'', Rep not_at_space 1 None, Dollar]"

definition username_pattern :: "rx_item list" where
  "username_pattern = [Caret, Rep word_char 3 (Some 32), Dollar]"

text \<open>\<^verbatim>\<open>Email(value)\<close> and \<^verbatim>\<open>Username(value)\<close>: the dataclass constructor followed by
  \<^verbatim>\<open>__post_init__\<close>.\<close>

definition Email_new :: "string \<Rightarrow> error + email" where
  "Email_new v =
     (if \<not> re_match email_pattern v then Inl (ValueError ''Invalid email'')
      else Inr (Email v))"

definition Username_new :: "string \<Rightarrow> error + username" where
  "Username_new v =
     (if \<not> re_match username_pattern v then Inl (ValueError ''Invalid username'')
      else Inr (Username v))"

section \<open>Events and commands\<close>

datatype event =
    AccountRegistered account_id email username
  | AccountAlreadyExists "email option" "username option" string
  | AccountFollowed account_id account_id
  | FollowRejectedBlocked account_id account_id string
  | AccountBlocked account_id account_id
  | FollowerRemoved account_id account_id string

datatype event_type =
    T_AccountRegistered | T_AccountAlreadyExists | T_AccountFollowed
  | T_FollowRejectedBlocked | T_AccountBlocked | T_FollowerRemoved

fun type_of_event :: "event \<Rightarrow> event_type" where
  "type_of_event (AccountRegistered i e u) = T_AccountRegistered"
| "type_of_event (AccountAlreadyExists e u r) = T_AccountAlreadyExists"
| "type_of_event (AccountFollowed a b) = T_AccountFollowed"
| "type_of_event (FollowRejectedBlocked a b r) = T_FollowRejectedBlocked"
| "type_of_event (AccountBlocked a b) = T_AccountBlocked"
| "type_of_event (FollowerRemoved a b r) = T_FollowerRemoved"

text \<open>
  \<^verbatim>\<open>Command\<close> is an open marker class: \<open>OtherCommand name\<close> is an instance of any
  subclass other than the four below, \<open>name\<close> being its \<^verbatim>\<open>__name__\<close>.
\<close>

datatype command =
    RegisterAccount email username
  | FollowAccount account_id account_id
  | BlockAccount account_id account_id
  | RemoveFollower account_id account_id
  | OtherCommand string

fun type_name :: "command \<Rightarrow> string" where
  "type_name (RegisterAccount e u) = ''RegisterAccount''"
| "type_name (FollowAccount a b) = ''FollowAccount''"
| "type_name (BlockAccount a b) = ''BlockAccount''"
| "type_name (RemoveFollower a b) = ''RemoveFollower''"
| "type_name (OtherCommand name) = name"

section \<open>The Account aggregate\<close>

record account =
  acct_id :: account_id
  acct_email :: email
  acct_username :: username
  blocked :: "account_id set"

text \<open>\<^verbatim>\<open>Account.block\<close> mutates \<^verbatim>\<open>self.blocked\<close>; the model returns the fact and the
  updated account.\<close>

definition block :: "account \<Rightarrow> account_id \<Rightarrow> event \<times> account" where
  "block self other =
     (if other \<in> blocked self then (AccountBlocked (acct_id self) other, self)
      else (AccountBlocked (acct_id self) other,
            self\<lparr>blocked := insert other (blocked self)\<rparr>))"

section \<open>Repositories\<close>

record account_repo =
  by_id :: "string \<rightharpoonup> account"
  by_email :: "string \<rightharpoonup> string"
  by_username :: "string \<rightharpoonup> string"

definition accounts_get :: "account_repo \<Rightarrow> account_id \<Rightarrow> account option" where
  "accounts_get r account_id = by_id r (aid_value account_id)"

text \<open>\<^verbatim>\<open>if aid\<close> is false for a missing key and for the empty string.\<close>

definition get_by_email :: "account_repo \<Rightarrow> email \<Rightarrow> account option" where
  "get_by_email r e =
     (case by_email r (email_value e) of
        None \<Rightarrow> None
      | Some aid \<Rightarrow> if aid \<noteq> [] then by_id r aid else None)"

definition get_by_username :: "account_repo \<Rightarrow> username \<Rightarrow> account option" where
  "get_by_username r u =
     (case by_username r (username_value u) of
        None \<Rightarrow> None
      | Some aid \<Rightarrow> if aid \<noteq> [] then by_id r aid else None)"

definition accounts_save :: "account_repo \<Rightarrow> account \<Rightarrow> account_repo" where
  "accounts_save r a =
     r\<lparr>by_id := (by_id r)(aid_value (acct_id a) \<mapsto> a),
       by_email := (by_email r)(email_value (acct_email a) \<mapsto> aid_value (acct_id a)),
       by_username :=
         (by_username r)(username_value (acct_username a) \<mapsto> aid_value (acct_id a))\<rparr>"

text \<open>
  A \<^verbatim>\<open>defaultdict(set)\<close>: reading a missing key with \<^verbatim>\<open>d[k]\<close> stores the empty set
  under it. \<open>dd_get\<close> is \<^verbatim>\<open>__getitem__\<close>; \<open>dd_val\<close> is the set held for a key,
  empty when the key is missing, and changes nothing.
\<close>

type_synonym ddict = "string \<rightharpoonup> string set"

definition dd_get :: "ddict \<Rightarrow> string \<Rightarrow> string set \<times> ddict" where
  "dd_get d k = (case d k of None \<Rightarrow> ({}, d(k \<mapsto> {})) | Some s \<Rightarrow> (s, d))"

definition dd_val :: "ddict \<Rightarrow> string \<Rightarrow> string set" where
  "dd_val d k = (case d k of None \<Rightarrow> {} | Some s \<Rightarrow> s)"

text \<open>\<^verbatim>\<open>d[k].add(v)\<close> and \<^verbatim>\<open>d[k].discard(v)\<close>.\<close>

definition dd_add :: "ddict \<Rightarrow> string \<Rightarrow> string \<Rightarrow> ddict" where
  "dd_add d k v = (let (s, d1) = dd_get d k in d1(k \<mapsto> insert v s))"

definition dd_discard :: "ddict \<Rightarrow> string \<Rightarrow> string \<Rightarrow> ddict" where
  "dd_discard d k v = (let (s, d1) = dd_get d k in d1(k \<mapsto> s - {v}))"

record follow_repo =
  following :: ddict
  followers :: ddict

definition follows_exists ::
  "follow_repo \<Rightarrow> account_id \<Rightarrow> account_id \<Rightarrow> bool \<times> follow_repo" where
  "follows_exists r follower followee =
     (let (s, d) = dd_get (following r) (aid_value follower)
      in (aid_value followee \<in> s, r\<lparr>following := d\<rparr>))"

definition follows_add :: "follow_repo \<Rightarrow> account_id \<Rightarrow> account_id \<Rightarrow> follow_repo" where
  "follows_add r follower followee =
     (let (ex, r1) = follows_exists r follower followee
      in if ex then r1
         else r1\<lparr>following := dd_add (following r1) (aid_value follower) (aid_value followee),
                 followers := dd_add (followers r1) (aid_value followee) (aid_value follower)\<rparr>)"

definition follows_remove :: "follow_repo \<Rightarrow> account_id \<Rightarrow> account_id \<Rightarrow> follow_repo" where
  "follows_remove r follower followee =
     r\<lparr>following := dd_discard (following r) (aid_value follower) (aid_value followee),
       followers := dd_discard (followers r) (aid_value followee) (aid_value follower)\<rparr>"

section \<open>The application\<close>

text \<open>
  The state of an \<^verbatim>\<open>Application\<close> with its two in-memory repositories.
  \<open>published\<close> is a ghost field: the events passed to \<^verbatim>\<open>EventBus.publish\<close> so far,
  in call order. The program keeps no such list and nothing reads it.
\<close>

record app =
  accounts :: account_repo
  follows :: follow_repo
  read_followers :: ddict
  read_following :: ddict
  published :: "event list"

subsection \<open>Command handlers\<close>

text \<open>\<open>uuid\<close> is the string that \<^verbatim>\<open>str(uuid.uuid4())\<close> returns inside
  \<^verbatim>\<open>AccountId.new()\<close>.\<close>

definition handle_register_account ::
  "string \<Rightarrow> email \<Rightarrow> username \<Rightarrow> app \<Rightarrow> event list \<times> app" where
  "handle_register_account uuid e u s =
     (if get_by_email (accounts s) e \<noteq> None \<or> get_by_username (accounts s) u \<noteq> None
      then ([AccountAlreadyExists (Some e) (Some u) ''Duplicate email or username''], s)
      else
        let acc = \<lparr>acct_id = AccountId uuid, acct_email = e, acct_username = u, blocked = {}\<rparr>;
            evt = AccountRegistered (acct_id acc) (acct_email acc) (acct_username acc)
        in ([evt], s\<lparr>accounts := accounts_save (accounts s) acc\<rparr>))"

definition handle_follow_account ::
  "account_id \<Rightarrow> account_id \<Rightarrow> app \<Rightarrow> event list \<times> app" where
  "handle_follow_account follower_id followee_id s =
     (if follower_id = followee_id
      then ([FollowRejectedBlocked follower_id followee_id ''Cannot follow self''], s)
      else
        case (accounts_get (accounts s) follower_id, accounts_get (accounts s) followee_id) of
          (Some follower, Some followee) \<Rightarrow>
            if followee_id \<in> blocked follower \<or> follower_id \<in> blocked followee
            then ([FollowRejectedBlocked follower_id followee_id ''Blocked relationship''], s)
            else
              let (ex, r) = follows_exists (follows s) follower_id followee_id
              in if ex then ([], s\<lparr>follows := r\<rparr>)
                 else ([AccountFollowed follower_id followee_id],
                       s\<lparr>follows := follows_add r follower_id followee_id\<rparr>)
        | _ \<Rightarrow> ([FollowRejectedBlocked follower_id followee_id ''Unknown accounts''], s))"

definition handle_block_account ::
  "account_id \<Rightarrow> account_id \<Rightarrow> app \<Rightarrow> event list \<times> app" where
  "handle_block_account blocker_id blocked_id s =
     (if blocker_id = blocked_id then ([], s)
      else
        case (accounts_get (accounts s) blocker_id, accounts_get (accounts s) blocked_id) of
          (Some blocker, Some blocked_acc) \<Rightarrow>
            let (evt, blocker1) = block blocker blocked_id
            in ([evt], s\<lparr>accounts := accounts_save (accounts s) blocker1\<rparr>)
        | _ \<Rightarrow> ([], s))"

definition handle_remove_follower ::
  "account_id \<Rightarrow> account_id \<Rightarrow> app \<Rightarrow> event list \<times> app" where
  "handle_remove_follower follower_id followee_id s =
     (let (ex, r) = follows_exists (follows s) follower_id followee_id
      in if \<not> ex then ([], s\<lparr>follows := r\<rparr>)
         else ([FollowerRemoved follower_id followee_id ''Blocked''],
               s\<lparr>follows := follows_remove r follower_id followee_id\<rparr>))"

text \<open>
  \<^verbatim>\<open>self.handlers.get(type(cmd))\<close> followed by the call of the handler found, with the
  table that \<^verbatim>\<open>_register_handlers\<close> fills: one entry for each of the four command
  classes, \<open>None\<close> for every other class.
\<close>

fun run_handler :: "string \<Rightarrow> command \<Rightarrow> app \<Rightarrow> (event list \<times> app) option" where
  "run_handler uuid (RegisterAccount e u) s = Some (handle_register_account uuid e u s)"
| "run_handler uuid (FollowAccount a b) s = Some (handle_follow_account a b s)"
| "run_handler uuid (BlockAccount a b) s = Some (handle_block_account a b s)"
| "run_handler uuid (RemoveFollower a b) s = Some (handle_remove_follower a b s)"
| "run_handler uuid (OtherCommand name) s = None"

subsection \<open>Event bus, policies and projector\<close>

datatype subscriber = On_account_blocked | Project

text \<open>\<^verbatim>\<open>EventBus.subscribe\<close> appends to the list held for the event type.\<close>

definition subscribe ::
  "(event_type \<rightharpoonup> subscriber list) \<Rightarrow> event_type \<Rightarrow> subscriber \<Rightarrow>
   (event_type \<rightharpoonup> subscriber list)" where
  "subscribe subs t fn = subs(t \<mapsto> (case subs t of None \<Rightarrow> [] | Some l \<Rightarrow> l) @ [fn])"

text \<open>The subscriptions of \<^verbatim>\<open>Application.__init__\<close>, in the order it makes them:
  \<^verbatim>\<open>_register_policies\<close> first, then the three of the projector.\<close>

definition subscribers :: "event_type \<rightharpoonup> subscriber list" where
  "subscribers =
     subscribe (subscribe (subscribe (subscribe Map.empty
       T_AccountBlocked On_account_blocked)
       T_AccountRegistered Project)
       T_AccountFollowed Project)
       T_FollowerRemoved Project"

definition project :: "event \<Rightarrow> app \<Rightarrow> app" where
  "project ev s =
     (case ev of
        AccountRegistered i e u \<Rightarrow> s
      | AccountFollowed follower_id followee_id \<Rightarrow>
          s\<lparr>read_following :=
              dd_add (read_following s) (aid_value follower_id) (aid_value followee_id),
            read_followers :=
              dd_add (read_followers s) (aid_value followee_id) (aid_value follower_id)\<rparr>
      | FollowerRemoved follower_id followee_id r \<Rightarrow>
          s\<lparr>read_following :=
              dd_discard (read_following s) (aid_value follower_id) (aid_value followee_id),
            read_followers :=
              dd_discard (read_followers s) (aid_value followee_id) (aid_value follower_id)\<rparr>
      | _ \<Rightarrow> s)"

text \<open>
  The result of a call that runs subscribers: \<open>None\<close> when the nesting budget of
  \<open>handle\<close> is used up, \<open>Some (Inl e)\<close> when \<open>e\<close> was raised, \<open>Some (Inr x)\<close> when
  the call returned \<open>x\<close>.
\<close>

type_synonym 'a outcome = "(error + 'a) option"

text \<open>\<open>self_handle\<close> is the bound method \<^verbatim>\<open>self.handle\<close> that the closure
  \<^verbatim>\<open>on_account_blocked\<close> captures; its return value is dropped.\<close>

definition on_account_blocked ::
  "(command \<Rightarrow> app \<Rightarrow> (event list \<times> app) outcome) \<Rightarrow> event \<Rightarrow> app \<Rightarrow> app outcome" where
  "on_account_blocked self_handle ev s =
     (case ev of
        AccountBlocked blocker_id blocked_id \<Rightarrow>
          (case self_handle (RemoveFollower blocked_id blocker_id) s of
             None \<Rightarrow> None
           | Some (Inl e) \<Rightarrow> Some (Inl e)
           | Some (Inr (evs, s1)) \<Rightarrow> Some (Inr s1))
      | _ \<Rightarrow> Some (Inl AssertionError))"

fun call_subscriber ::
  "(command \<Rightarrow> app \<Rightarrow> (event list \<times> app) outcome) \<Rightarrow> subscriber \<Rightarrow> event \<Rightarrow> app \<Rightarrow>
   app outcome" where
  "call_subscriber self_handle On_account_blocked ev s = on_account_blocked self_handle ev s"
| "call_subscriber self_handle Project ev s = Some (Inr (project ev s))"

text \<open>The loop of \<^verbatim>\<open>EventBus.publish\<close>; an exception ends it.\<close>

fun run_subscribers ::
  "(command \<Rightarrow> app \<Rightarrow> (event list \<times> app) outcome) \<Rightarrow> subscriber list \<Rightarrow> event \<Rightarrow> app \<Rightarrow>
   app outcome" where
  "run_subscribers self_handle [] ev s = Some (Inr s)"
| "run_subscribers self_handle (fn # fns) ev s =
     (case call_subscriber self_handle fn ev s of
        None \<Rightarrow> None
      | Some (Inl e) \<Rightarrow> Some (Inl e)
      | Some (Inr s1) \<Rightarrow> run_subscribers self_handle fns ev s1)"

definition publish ::
  "(command \<Rightarrow> app \<Rightarrow> (event list \<times> app) outcome) \<Rightarrow> event \<Rightarrow> app \<Rightarrow> app outcome" where
  "publish self_handle ev s =
     run_subscribers self_handle
       (case subscribers (type_of_event ev) of None \<Rightarrow> [] | Some l \<Rightarrow> l)
       ev (s\<lparr>published := published s @ [ev]\<rparr>)"

text \<open>The loop \<^verbatim>\<open>for ev in events: self.bus.publish(ev)\<close> of \<^verbatim>\<open>handle\<close>.\<close>

fun publish_all ::
  "(command \<Rightarrow> app \<Rightarrow> (event list \<times> app) outcome) \<Rightarrow> event list \<Rightarrow> app \<Rightarrow> app outcome" where
  "publish_all self_handle [] s = Some (Inr s)"
| "publish_all self_handle (ev # evs) s =
     (case publish self_handle ev s of
        None \<Rightarrow> None
      | Some (Inl e) \<Rightarrow> Some (Inl e)
      | Some (Inr s1) \<Rightarrow> publish_all self_handle evs s1)"

subsection \<open>The entry point\<close>

text \<open>
  \<^verbatim>\<open>Application.handle\<close> calls itself through the policy. The first argument bounds
  the nesting of these calls: \<open>handle n\<close> may nest \<open>n\<close> calls deep, itself included,
  and is \<open>None\<close> when that is not enough.
\<close>

primrec handle :: "nat \<Rightarrow> string \<Rightarrow> command \<Rightarrow> app \<Rightarrow> (event list \<times> app) outcome" where
  "handle 0 uuid cmd s = None"
| "handle (Suc n) uuid cmd s =
     (case run_handler uuid cmd s of
        None \<Rightarrow> Some (Inl (ValueError (''No handler for '' @ type_name cmd)))
      | Some (events, s1) \<Rightarrow>
          (case publish_all (handle n uuid) events s1 of
             None \<Rightarrow> None
           | Some (Inl e) \<Rightarrow> Some (Inl e)
           | Some (Inr s2) \<Rightarrow> Some (Inr (events, s2))))"

text \<open>\<^verbatim>\<open>Application(InMemoryAccountRepo(), InMemoryFollowRepo())\<close>.\<close>

definition init_app :: app where
  "init_app =
     \<lparr>accounts = \<lparr>by_id = Map.empty, by_email = Map.empty, by_username = Map.empty\<rparr>,
      follows = \<lparr>following = Map.empty, followers = Map.empty\<rparr>,
      read_followers = Map.empty,
      read_following = Map.empty,
      published = []\<rparr>"

section \<open>Derived notions used by the statements\<close>

text \<open>The first step of \<^verbatim>\<open>EventBus.publish\<close> in the model: the event enters the log.\<close>

definition record_publish :: "event \<Rightarrow> app \<Rightarrow> app" where
  "record_publish ev s = s\<lparr>published := published s @ [ev]\<rparr>"

text \<open>
  The state after \<^verbatim>\<open>self.bus.publish(ev)\<close> has returned, nested calls included,
  written without a nesting budget: the policy on \<open>AccountBlocked\<close> runs the handler of
  \<open>RemoveFollower\<close> and the projector sees what that handler produced.
\<close>

definition effect :: "event \<Rightarrow> app \<Rightarrow> app" where
  "effect ev s =
     (case ev of
        AccountBlocked blocker_id blocked_id \<Rightarrow>
          (let (evs, s1) = handle_remove_follower blocked_id blocker_id (record_publish ev s)
           in foldl (\<lambda>t e. project e (record_publish e t)) s1 evs)
      | _ \<Rightarrow> project ev (record_publish ev s))"

text \<open>The events that a publication of \<open>ev\<close> makes nested calls publish.\<close>

definition cascaded :: "event \<Rightarrow> app \<Rightarrow> event list" where
  "cascaded ev s =
     (case ev of
        AccountBlocked blocker_id blocked_id \<Rightarrow>
          fst (handle_remove_follower blocked_id blocker_id (record_publish ev s))
      | _ \<Rightarrow> [])"

definition all_event_types :: "event_type list" where
  "all_event_types =
     [T_AccountRegistered, T_AccountAlreadyExists, T_AccountFollowed,
      T_FollowRejectedBlocked, T_AccountBlocked, T_FollowerRemoved]"

text \<open>
  \<^verbatim>\<open>uuid.uuid4()\<close> is outside the repository. What the handlers rely on is that its
  string is not empty (it has 36 characters) and, as the specification assumes, that
  it collides with no identifier already in use.
\<close>

definition fresh_id :: "string \<Rightarrow> app \<Rightarrow> bool" where
  "fresh_id uuid s = (uuid \<noteq> [] \<and> by_id (accounts s) uuid = None)"

text \<open>The states an application can be in between two calls of \<^verbatim>\<open>handle\<close> by its
  user. A call that raises does so before any handler ran, so it adds no state.\<close>

inductive reachable :: "app \<Rightarrow> bool" where
  reachable_init: "reachable init_app"
| reachable_handle:
    "reachable s \<Longrightarrow>
     (\<forall>e u. cmd = RegisterAccount e u \<longrightarrow> fresh_id uuid s) \<Longrightarrow>
     handle n uuid cmd s = Some (Inr (evs, s')) \<Longrightarrow>
     reachable s'"

text \<open>The three indexes of the account repository agree.\<close>

definition accounts_ok :: "account_repo \<Rightarrow> bool" where
  "accounts_ok r =
     ((\<forall>i a. by_id r i = Some a \<longrightarrow>
          i \<noteq> [] \<and> acct_id a = AccountId i \<and>
          by_email r (email_value (acct_email a)) = Some i \<and>
          by_username r (username_value (acct_username a)) = Some i) \<and>
      (\<forall>e i. by_email r e = Some i \<longrightarrow>
          (\<exists>a. by_id r i = Some a \<and> email_value (acct_email a) = e)) \<and>
      (\<forall>u i. by_username r u = Some i \<longrightarrow>
          (\<exists>a. by_id r i = Some a \<and> username_value (acct_username a) = u)))"

text \<open>The read model holds, for every id, the sets the follow repository holds.\<close>

definition mirrors :: "app \<Rightarrow> bool" where
  "mirrors s =
     (\<forall>x. dd_val (read_following s) x = dd_val (following (follows s)) x \<and>
          dd_val (read_followers s) x = dd_val (followers (follows s)) x)"

text \<open>No edge from an account to itself, and no edge towards an account that has
  blocked the follower.\<close>

definition edges_ok :: "app \<Rightarrow> bool" where
  "edges_ok s =
     ((\<forall>x. x \<notin> dd_val (following (follows s)) x) \<and>
      (\<forall>x y a. y \<in> dd_val (following (follows s)) x \<longrightarrow> by_id (accounts s) y = Some a \<longrightarrow>
          AccountId x \<notin> blocked a))"

section \<open>A scenario: two accounts, a follow, a block\<close>

text \<open>
  The states that the scenario of the specification goes through, written out. The
  three identifiers stand for results of \<^verbatim>\<open>uuid.uuid4()\<close>; \<open>uuid_spare\<close> is passed to
  calls that never ask for one.
\<close>

definition uuid_alice :: string where
  "uuid_alice = ''3f2b8c1e-9d4a-4e6f-8a17-5c0d2e9b7f31''"

definition uuid_bob :: string where
  "uuid_bob = ''a47c6e02-1b3d-4f58-9c2e-7d8f0a1b2c3d''"

definition uuid_spare :: string where
  "uuid_spare = ''0d9e8f7a-6b5c-4d3e-a2f1-0b9c8d7e6f5a''"

definition alice :: account_id where "alice = AccountId uuid_alice"

definition bob :: account_id where "bob = AccountId uuid_bob"

definition alice_account :: account where
  "alice_account =
     \<lparr>acct_id = alice, acct_email = Email ''a@x.com'', acct_username = Username ''alice_uk'',
      blocked = {}\<rparr>"

definition bob_account :: account where
  "bob_account =
     \<lparr>acct_id = bob, acct_email = Email ''b@x.com'', acct_username = Username ''bob_uk'',
      blocked = {}\<rparr>"

definition alice_registered :: event where
  "alice_registered = AccountRegistered alice (Email ''a@x.com'') (Username ''alice_uk'')"

definition bob_registered :: event where
  "bob_registered = AccountRegistered bob (Email ''b@x.com'') (Username ''bob_uk'')"

definition one_account :: app where
  "one_account =
     \<lparr>accounts =
        \<lparr>by_id = [uuid_alice \<mapsto> alice_account],
         by_email = [''a@x.com'' \<mapsto> uuid_alice],
         by_username = [''alice_uk'' \<mapsto> uuid_alice]\<rparr>,
      follows = \<lparr>following = Map.empty, followers = Map.empty\<rparr>,
      read_followers = Map.empty,
      read_following = Map.empty,
      published = [alice_registered]\<rparr>"

definition two_accounts :: app where
  "two_accounts =
     \<lparr>accounts =
        \<lparr>by_id = [uuid_alice \<mapsto> alice_account, uuid_bob \<mapsto> bob_account],
         by_email = [''a@x.com'' \<mapsto> uuid_alice, ''b@x.com'' \<mapsto> uuid_bob],
         by_username = [''alice_uk'' \<mapsto> uuid_alice, ''bob_uk'' \<mapsto> uuid_bob]\<rparr>,
      follows = \<lparr>following = Map.empty, followers = Map.empty\<rparr>,
      read_followers = Map.empty,
      read_following = Map.empty,
      published = [alice_registered, bob_registered]\<rparr>"

definition alice_follows_bob :: app where
  "alice_follows_bob =
     two_accounts
       \<lparr>follows := \<lparr>following = [uuid_alice \<mapsto> {uuid_bob}],
                    followers = [uuid_bob \<mapsto> {uuid_alice}]\<rparr>,
        read_followers := [uuid_bob \<mapsto> {uuid_alice}],
        read_following := [uuid_alice \<mapsto> {uuid_bob}],
        published := [alice_registered, bob_registered, AccountFollowed alice bob]\<rparr>"

definition bob_blocked_alice :: app where
  "bob_blocked_alice =
     \<lparr>accounts =
        \<lparr>by_id = [uuid_alice \<mapsto> alice_account, uuid_bob \<mapsto> bob_account\<lparr>blocked := {alice}\<rparr>],
         by_email = [''a@x.com'' \<mapsto> uuid_alice, ''b@x.com'' \<mapsto> uuid_bob],
         by_username = [''alice_uk'' \<mapsto> uuid_alice, ''bob_uk'' \<mapsto> uuid_bob]\<rparr>,
      follows = \<lparr>following = [uuid_alice \<mapsto> {}], followers = [uuid_bob \<mapsto> {}]\<rparr>,
      read_followers = [uuid_bob \<mapsto> {}],
      read_following = [uuid_alice \<mapsto> {}],
      published =
        [alice_registered, bob_registered, AccountFollowed alice bob,
         AccountBlocked bob alice, FollowerRemoved alice bob ''Blocked'']\<rparr>"

definition alice_blocked_bob :: app where
  "alice_blocked_bob =
     \<lparr>accounts =
        \<lparr>by_id = [uuid_alice \<mapsto> alice_account\<lparr>blocked := {bob}\<rparr>, uuid_bob \<mapsto> bob_account],
         by_email = [''a@x.com'' \<mapsto> uuid_alice, ''b@x.com'' \<mapsto> uuid_bob],
         by_username = [''alice_uk'' \<mapsto> uuid_alice, ''bob_uk'' \<mapsto> uuid_bob]\<rparr>,
      follows = \<lparr>following = [uuid_alice \<mapsto> {uuid_bob}, uuid_bob \<mapsto> {}],
                 followers = [uuid_bob \<mapsto> {uuid_alice}]\<rparr>,
      read_followers = [uuid_bob \<mapsto> {uuid_alice}],
      read_following = [uuid_alice \<mapsto> {uuid_bob}],
      published =
        [alice_registered, bob_registered, AccountFollowed alice bob,
         AccountBlocked alice bob]\<rparr>"

section \<open>The entry point without a nesting budget\<close>

lemma subscribers_simps:
  "subscribers T_AccountRegistered = Some [Project]"
  "subscribers T_AccountAlreadyExists = None"
  "subscribers T_AccountFollowed = Some [Project]"
  "subscribers T_FollowRejectedBlocked = None"
  "subscribers T_AccountBlocked = Some [On_account_blocked]"
  "subscribers T_FollowerRemoved = Some [Project]"
  by (simp_all add: subscribers_def subscribe_def)

lemma publish_plain:
  "type_of_event ev \<noteq> T_AccountBlocked \<Longrightarrow>
   publish h ev s = Some (Inr (project ev (record_publish ev s)))"
  by (cases ev) (simp_all add: publish_def subscribers_simps project_def record_publish_def)

lemma handle_remove_follower_events:
  "fst (handle_remove_follower a b s) = [] \<or>
   fst (handle_remove_follower a b s) = [FollowerRemoved a b ''Blocked'']"
  by (simp add: handle_remove_follower_def case_prod_beta Let_def)

lemma handle_RemoveFollower:
  "handle (Suc n) u (RemoveFollower a b) s =
   Some (Inr (fst (handle_remove_follower a b s),
              foldl (\<lambda>t e. project e (record_publish e t))
                (snd (handle_remove_follower a b s)) (fst (handle_remove_follower a b s))))"
  using handle_remove_follower_events [of a b s]
  by (cases "handle_remove_follower a b s") (auto simp: publish_plain)

lemma publish_effect: "publish (handle (Suc n) u) ev s = Some (Inr (effect ev s))"
proof (cases "type_of_event ev = T_AccountBlocked")
  case True
  then obtain b a where ev: "ev = AccountBlocked b a" by (cases ev) simp_all
  show ?thesis
    unfolding ev publish_def
    by (simp add: subscribers_simps on_account_blocked_def handle_RemoveFollower
        effect_def record_publish_def case_prod_beta del: handle.simps)
next
  case False
  then show ?thesis by (cases ev) (simp_all add: publish_plain effect_def)
qed

lemma publish_all_effect:
  "publish_all (handle (Suc n) u) evs s = Some (Inr (foldl (\<lambda>t e. effect e t) s evs))"
  by (induction evs arbitrary: s) (simp_all add: publish_effect del: handle.simps)

lemma handle_unfold:
  "handle (Suc (Suc n)) u cmd s =
     (case run_handler u cmd s of
        None \<Rightarrow> Some (Inl (ValueError (''No handler for '' @ type_name cmd)))
      | Some (evs, s1) \<Rightarrow> Some (Inr (evs, foldl (\<lambda>t e. effect e t) s1 evs)))"
  by (simp add: publish_all_effect split: option.splits del: publish_all.simps)

section \<open>Views of the repositories\<close>

lemma dd_get_fst: "fst (dd_get d k) = dd_val d k"
  by (simp add: dd_get_def dd_val_def split: option.splits)

lemma dd_val_get: "dd_val (snd (dd_get d k)) k' = dd_val d k'"
  by (simp add: dd_get_def dd_val_def split: option.splits)

lemma dd_val_add:
  "dd_val (dd_add d k v) k' = (if k' = k then insert v (dd_val d k) else dd_val d k')"
  by (simp add: dd_add_def dd_get_def dd_val_def split: option.splits)

lemma dd_val_discard:
  "dd_val (dd_discard d k v) k' = (if k' = k then dd_val d k - {v} else dd_val d k')"
  by (simp add: dd_discard_def dd_get_def dd_val_def split: option.splits)

lemma follows_exists_fst:
  "fst (follows_exists r a b) = (aid_value b \<in> dd_val (following r) (aid_value a))"
  by (simp add: follows_exists_def case_prod_beta dd_get_fst)

lemma follows_exists_snd:
  "dd_val (following (snd (follows_exists r a b))) k = dd_val (following r) k"
  "followers (snd (follows_exists r a b)) = followers r"
  by (simp_all add: follows_exists_def case_prod_beta dd_val_get)

lemma follows_add_val:
  "dd_val (following (follows_add r a b)) k =
     (if k = aid_value a then insert (aid_value b) (dd_val (following r) k)
      else dd_val (following r) k)"
  "\<not> fst (follows_exists r a b) \<Longrightarrow> dd_val (followers (follows_add r a b)) k =
     (if k = aid_value b then insert (aid_value a) (dd_val (followers r) k)
      else dd_val (followers r) k)"
  by (auto simp: follows_add_def case_prod_beta follows_exists_fst follows_exists_snd dd_val_add)

lemma follows_remove_val:
  "dd_val (following (follows_remove r a b)) k =
     (if k = aid_value a then dd_val (following r) k - {aid_value b} else dd_val (following r) k)"
  "dd_val (followers (follows_remove r a b)) k =
     (if k = aid_value b then dd_val (followers r) k - {aid_value a} else dd_val (followers r) k)"
  by (simp_all add: follows_remove_def dd_val_discard)

lemmas val_simps = follows_exists_fst follows_exists_snd follows_add_val follows_remove_val
  dd_val_add dd_val_discard

lemma mirrors_remove:
  assumes "mirrors s"
  shows "mirrors (foldl (\<lambda>t e. project e (record_publish e t))
                (snd (handle_remove_follower a b s)) (fst (handle_remove_follower a b s)))"
  using assms
  by (auto simp: mirrors_def handle_remove_follower_def case_prod_beta Let_def project_def
      record_publish_def val_simps)

lemma mirrors_record_publish: "mirrors (record_publish ev s) = mirrors s"
  by (simp add: mirrors_def record_publish_def)

lemma mirrors_effect_blocked: "mirrors s \<Longrightarrow> mirrors (effect (AccountBlocked b a) s)"
  by (simp add: effect_def case_prod_beta mirrors_remove mirrors_record_publish)

lemma handle_block_account_events:
  "fst (handle_block_account b a s) = [] \<or>
   (\<exists>b'. fst (handle_block_account b a s) = [AccountBlocked b' a])"
  by (simp add: handle_block_account_def block_def Let_def split: option.splits)

lemma mirrors_block_handler: "mirrors (snd (handle_block_account b a s)) = mirrors s"
  by (simp add: handle_block_account_def block_def Let_def mirrors_def split: option.splits)

lemma mirrors_step:
  assumes "mirrors s" "run_handler u cmd s = Some (evs, s1)"
  shows "mirrors (foldl (\<lambda>t e. effect e t) s1 evs)"
proof (cases cmd)
  case (RegisterAccount e un)
  with assms show ?thesis
    by (auto simp: handle_register_account_def Let_def effect_def project_def
        record_publish_def mirrors_def split: if_splits)
next
  case (FollowAccount a b)
  with assms show ?thesis
    by (auto simp: handle_follow_account_def Let_def effect_def project_def case_prod_beta
        record_publish_def mirrors_def val_simps split: if_splits option.splits)
next
  case (BlockAccount b a)
  have "mirrors s1" using assms BlockAccount mirrors_block_handler [of b a s] by simp
  moreover have "evs = [] \<or> (\<exists>b'. evs = [AccountBlocked b' a])"
    using assms BlockAccount handle_block_account_events [of b a s] by auto
  ultimately show ?thesis by (auto simp: mirrors_effect_blocked)
next
  case (RemoveFollower a b)
  with assms show ?thesis
    by (auto simp: handle_remove_follower_def Let_def effect_def project_def case_prod_beta
        record_publish_def mirrors_def val_simps split: if_splits option.splits)
next
  case (OtherCommand x)
  with assms show ?thesis by simp
qed

section \<open>Any budget gives the same result\<close>

lemma handle_zero: "handle 0 u = (\<lambda>cmd s. None)"
  by (rule ext)+ simp

lemma publish_no_budget:
  "publish (\<lambda>cmd s. None) ev s = Some (Inr s2) \<Longrightarrow> s2 = effect ev s"
  by (cases ev)
     (auto simp: publish_def subscribers_simps on_account_blocked_def effect_def
        record_publish_def project_def)

lemma publish_all_no_budget:
  "publish_all (\<lambda>cmd s. None) evs s = Some (Inr s2) \<Longrightarrow> s2 = foldl (\<lambda>t e. effect e t) s evs"
proof (induction evs arbitrary: s)
  case Nil
  then show ?case by simp
next
  case (Cons ev evs)
  then show ?case
    by (auto split: option.splits sum.splits dest: publish_no_budget)
qed

lemma handle_returns:
  assumes "handle n u cmd s = Some (Inr (evs, s'))"
  shows "\<exists>s1. run_handler u cmd s = Some (evs, s1) \<and> s' = foldl (\<lambda>t e. effect e t) s1 evs"
proof (cases n)
  case 0
  with assms show ?thesis by simp
next
  case (Suc m)
  show ?thesis
  proof (cases m)
    case 0
    with assms Suc show ?thesis
      by (auto simp: handle_zero split: option.splits sum.splits dest: publish_all_no_budget)
  next
    case (Suc k)
    show ?thesis
      using assms unfolding \<open>n = Suc m\<close> Suc handle_unfold
      by (auto split: option.splits)
  qed
qed

lemma accounts_effect: "accounts (effect ev s) = accounts s"
  by (cases ev)
     (simp_all add: effect_def project_def record_publish_def handle_remove_follower_def
        case_prod_beta Let_def)

lemma accounts_foldl_effect: "accounts (foldl (\<lambda>t e. effect e t) s evs) = accounts s"
  by (induction evs arbitrary: s) (simp_all add: accounts_effect)

lemma get_by_email_ok:
  assumes "accounts_ok r"
  shows "(get_by_email r e \<noteq> None) = (\<exists>a \<in> ran (by_id r). acct_email a = e)"
proof
  assume "get_by_email r e \<noteq> None"
  then obtain i a where i: "by_email r (email_value e) = Some i" and a: "by_id r i = Some a"
    by (auto simp: get_by_email_def split: option.splits if_splits)
  from assms i obtain a' where "by_id r i = Some a'" "email_value (acct_email a') = email_value e"
    unfolding accounts_ok_def by blast
  then show "\<exists>a \<in> ran (by_id r). acct_email a = e"
    by (auto simp: ran_def email.expand)
next
  assume "\<exists>a \<in> ran (by_id r). acct_email a = e"
  then obtain i a where a: "by_id r i = Some a" "acct_email a = e"
    by (auto simp: ran_def)
  with assms have "i \<noteq> []" "by_email r (email_value e) = Some i"
    unfolding accounts_ok_def by blast+
  with a show "get_by_email r e \<noteq> None"
    by (simp add: get_by_email_def)
qed

lemma get_by_username_ok:
  assumes "accounts_ok r"
  shows "(get_by_username r u \<noteq> None) = (\<exists>a \<in> ran (by_id r). acct_username a = u)"
proof
  assume "get_by_username r u \<noteq> None"
  then obtain i a where i: "by_username r (username_value u) = Some i" and a: "by_id r i = Some a"
    by (auto simp: get_by_username_def split: option.splits if_splits)
  from assms i obtain a' where
    "by_id r i = Some a'" "username_value (acct_username a') = username_value u"
    unfolding accounts_ok_def by blast
  then show "\<exists>a \<in> ran (by_id r). acct_username a = u"
    by (auto simp: ran_def username.expand)
next
  assume "\<exists>a \<in> ran (by_id r). acct_username a = u"
  then obtain i a where a: "by_id r i = Some a" "acct_username a = u"
    by (auto simp: ran_def)
  with assms have "i \<noteq> []" "by_username r (username_value u) = Some i"
    unfolding accounts_ok_def by blast+
  with a show "get_by_username r u \<noteq> None"
    by (simp add: get_by_username_def)
qed

section \<open>Invariants of the reachable states\<close>

lemma accounts_okI:
  assumes "\<And>i a. by_id r i = Some a \<Longrightarrow>
             i \<noteq> [] \<and> acct_id a = AccountId i \<and>
             by_email r (email_value (acct_email a)) = Some i \<and>
             by_username r (username_value (acct_username a)) = Some i"
    and "\<And>e i. by_email r e = Some i \<Longrightarrow>
             \<exists>a. by_id r i = Some a \<and> email_value (acct_email a) = e"
    and "\<And>u i. by_username r u = Some i \<Longrightarrow>
             \<exists>a. by_id r i = Some a \<and> username_value (acct_username a) = u"
  shows "accounts_ok r"
  unfolding accounts_ok_def using assms by blast

lemma accounts_okD:
  assumes "accounts_ok r"
  shows "by_id r i = Some a \<Longrightarrow> i \<noteq> []"
    and "by_id r i = Some a \<Longrightarrow> acct_id a = AccountId i"
    and "by_id r i = Some a \<Longrightarrow> by_email r (email_value (acct_email a)) = Some i"
    and "by_id r i = Some a \<Longrightarrow> by_username r (username_value (acct_username a)) = Some i"
    and "by_email r e = Some i \<Longrightarrow> \<exists>a. by_id r i = Some a \<and> email_value (acct_email a) = e"
    and "by_username r u = Some i \<Longrightarrow>
           \<exists>a. by_id r i = Some a \<and> username_value (acct_username a) = u"
  using assms unfolding accounts_ok_def by blast+

lemma accounts_ok_register:
  assumes ok: "accounts_ok r" and fresh: "uuid \<noteq> []" "by_id r uuid = None"
    and e: "get_by_email r e = None" and u: "get_by_username r u = None"
  shows "accounts_ok (accounts_save r
           \<lparr>acct_id = AccountId uuid, acct_email = e, acct_username = u, blocked = {}\<rparr>)"
proof -
  have ne: "by_email r (email_value e) = None"
  proof (cases "by_email r (email_value e)")
    case (Some i)
    with accounts_okD(5) [OF ok Some] accounts_okD(1) [OF ok] e show ?thesis
      by (auto simp: get_by_email_def)
  qed simp
  have nu: "by_username r (username_value u) = None"
  proof (cases "by_username r (username_value u)")
    case (Some i)
    with accounts_okD(6) [OF ok Some] accounts_okD(1) [OF ok] u show ?thesis
      by (auto simp: get_by_username_def)
  qed simp
  show ?thesis
  proof (rule accounts_okI)
    fix i a
    assume "by_id (accounts_save r
           \<lparr>acct_id = AccountId uuid, acct_email = e, acct_username = u, blocked = {}\<rparr>) i = Some a"
    then show "i \<noteq> [] \<and> acct_id a = AccountId i \<and>
       by_email (accounts_save r \<lparr>acct_id = AccountId uuid, acct_email = e, acct_username = u,
          blocked = {}\<rparr>) (email_value (acct_email a)) = Some i \<and>
       by_username (accounts_save r \<lparr>acct_id = AccountId uuid, acct_email = e, acct_username = u,
          blocked = {}\<rparr>) (username_value (acct_username a)) = Some i"
      using fresh ne nu accounts_okD(1-4) [OF ok, of i a]
      by (auto simp: accounts_save_def split: if_splits)
  next
    fix e' i
    assume "by_email (accounts_save r
           \<lparr>acct_id = AccountId uuid, acct_email = e, acct_username = u, blocked = {}\<rparr>) e' = Some i"
    then show "\<exists>a. by_id (accounts_save r \<lparr>acct_id = AccountId uuid, acct_email = e,
          acct_username = u, blocked = {}\<rparr>) i = Some a \<and> email_value (acct_email a) = e'"
      using fresh accounts_okD(5) [OF ok, of e' i]
      by (auto simp: accounts_save_def split: if_splits)
  next
    fix u' i
    assume "by_username (accounts_save r
           \<lparr>acct_id = AccountId uuid, acct_email = e, acct_username = u, blocked = {}\<rparr>) u' = Some i"
    then show "\<exists>a. by_id (accounts_save r \<lparr>acct_id = AccountId uuid, acct_email = e,
          acct_username = u, blocked = {}\<rparr>) i = Some a \<and> username_value (acct_username a) = u'"
      using fresh accounts_okD(6) [OF ok, of u' i]
      by (auto simp: accounts_save_def split: if_splits)
  qed
qed

lemma accounts_ok_block:
  assumes ok: "accounts_ok r" and b: "by_id r k = Some a"
  shows "accounts_ok (accounts_save r (a\<lparr>blocked := X\<rparr>))"
proof -
  have key: "aid_value (acct_id a) = k" using accounts_okD(2) [OF ok b] by simp
  show ?thesis
  proof (rule accounts_okI)
    fix i a'
    assume "by_id (accounts_save r (a\<lparr>blocked := X\<rparr>)) i = Some a'"
    then show "i \<noteq> [] \<and> acct_id a' = AccountId i \<and>
       by_email (accounts_save r (a\<lparr>blocked := X\<rparr>)) (email_value (acct_email a')) = Some i \<and>
       by_username (accounts_save r (a\<lparr>blocked := X\<rparr>)) (username_value (acct_username a')) = Some i"
      using key accounts_okD(1-4) [OF ok, of i a'] accounts_okD(1-4) [OF ok b]
      by (auto simp: accounts_save_def split: if_splits)
  next
    fix e' i
    assume "by_email (accounts_save r (a\<lparr>blocked := X\<rparr>)) e' = Some i"
    then show "\<exists>a'. by_id (accounts_save r (a\<lparr>blocked := X\<rparr>)) i = Some a' \<and>
        email_value (acct_email a') = e'"
      using key accounts_okD(5) [OF ok, of e' i] accounts_okD(3) [OF ok b] b
      by (auto simp: accounts_save_def split: if_splits)
  next
    fix u' i
    assume "by_username (accounts_save r (a\<lparr>blocked := X\<rparr>)) u' = Some i"
    then show "\<exists>a'. by_id (accounts_save r (a\<lparr>blocked := X\<rparr>)) i = Some a' \<and>
        username_value (acct_username a') = u'"
      using key accounts_okD(6) [OF ok, of u' i] accounts_okD(4) [OF ok b] b
      by (auto simp: accounts_save_def split: if_splits)
  qed
qed

lemma following_effect:
  "dd_val (following (follows (effect ev s))) x =
     (case ev of
        AccountBlocked b a \<Rightarrow>
          if x = aid_value a then dd_val (following (follows s)) x - {aid_value b}
          else dd_val (following (follows s)) x
      | _ \<Rightarrow> dd_val (following (follows s)) x)"
  by (cases ev)
     (auto simp: effect_def project_def record_publish_def handle_remove_follower_def
        case_prod_beta Let_def val_simps)

lemma aid_value_eq: "(aid_value a = aid_value b) = (a = b)"
  by (cases a; cases b) simp

lemma handle_block_account_Some:
  "b \<noteq> a \<Longrightarrow> accounts_get (accounts s) b = Some blocker \<Longrightarrow>
   accounts_get (accounts s) a = Some other \<Longrightarrow>
   handle_block_account b a s =
     ([AccountBlocked (acct_id blocker) a],
      s\<lparr>accounts := accounts_save (accounts s)
            (blocker\<lparr>blocked := insert a (blocked blocker)\<rparr>)\<rparr>)"
  by (simp add: handle_block_account_def block_def insert_absorb)

lemma handle_block_account_None:
  "b = a \<or> accounts_get (accounts s) b = None \<or> accounts_get (accounts s) a = None \<Longrightarrow>
   handle_block_account b a s = ([], s)"
  by (auto simp: handle_block_account_def split: option.splits)

lemma accounts_ok_step:
  assumes "accounts_ok (accounts s)"
    and "\<forall>e un. cmd = RegisterAccount e un \<longrightarrow> fresh_id u s"
    and "run_handler u cmd s = Some (evs, s1)"
  shows "accounts_ok (accounts s1)"
proof (cases cmd)
  case (RegisterAccount e un)
  with assms show ?thesis
    by (auto simp: handle_register_account_def Let_def fresh_id_def accounts_ok_register
        split: if_splits)
next
  case (FollowAccount a b)
  with assms show ?thesis
    by (auto simp: handle_follow_account_def Let_def case_prod_beta
        split: if_splits option.splits)
next
  case (BlockAccount b a)
  show ?thesis
  proof (cases "b \<noteq> a \<and> accounts_get (accounts s) b \<noteq> None \<and> accounts_get (accounts s) a \<noteq> None")
    case True
    then obtain acc where acc: "by_id (accounts s) (aid_value b) = Some acc"
      by (auto simp: accounts_get_def)
    have "accounts s1 = accounts_save (accounts s) (acc\<lparr>blocked := insert a (blocked acc)\<rparr>)"
      using assms(3) BlockAccount True acc
      by (auto simp: handle_block_account_Some accounts_get_def)
    then show ?thesis using accounts_ok_block [OF assms(1) acc] by simp
  next
    case False
    with assms BlockAccount show ?thesis
      by (auto simp: handle_block_account_None)
  qed
next
  case (RemoveFollower a b)
  with assms show ?thesis
    by (auto simp: handle_remove_follower_def Let_def case_prod_beta split: if_splits)
next
  case (OtherCommand x)
  with assms show ?thesis by simp
qed

lemma edges_okI:
  assumes "\<And>x. x \<notin> dd_val (following (follows s)) x"
    and "\<And>x y a. y \<in> dd_val (following (follows s)) x \<Longrightarrow> by_id (accounts s) y = Some a \<Longrightarrow>
          AccountId x \<notin> blocked a"
  shows "edges_ok s"
  unfolding edges_ok_def using assms by blast

lemma edges_okD:
  assumes "edges_ok s"
  shows "x \<notin> dd_val (following (follows s)) x"
    and "y \<in> dd_val (following (follows s)) x \<Longrightarrow> by_id (accounts s) y = Some a \<Longrightarrow>
          AccountId x \<notin> blocked a"
  using assms unfolding edges_ok_def by blast+

lemma edges_ok_step:
  assumes ok: "edges_ok s" and acc: "accounts_ok (accounts s)"
    and run: "run_handler u cmd s = Some (evs, s1)"
  shows "edges_ok (foldl (\<lambda>t e. effect e t) s1 evs)"
proof (cases cmd)
  case (RegisterAccount e un)
  with run ok show ?thesis
    by (auto simp: handle_register_account_def Let_def edges_ok_def following_effect
        accounts_effect accounts_save_def split: if_splits)
next
  case (FollowAccount a b)
  with run ok show ?thesis
    by (cases a; cases b)
       (auto simp: handle_follow_account_def Let_def case_prod_beta edges_ok_def
        following_effect accounts_effect val_simps accounts_get_def
        split: if_splits option.splits)
next
  case (BlockAccount b a)
  show ?thesis
  proof (cases "b \<noteq> a \<and> accounts_get (accounts s) b \<noteq> None \<and> accounts_get (accounts s) a \<noteq> None")
    case True
    then obtain blocker where blocker: "by_id (accounts s) (aid_value b) = Some blocker"
      by (auto simp: accounts_get_def)
    have id: "acct_id blocker = b" using accounts_okD(2) [OF acc blocker] by simp
    have evs: "evs = [AccountBlocked b a]"
      and s1: "s1 = s\<lparr>accounts := accounts_save (accounts s)
                 (blocker\<lparr>blocked := insert a (blocked blocker)\<rparr>)\<rparr>"
      using run BlockAccount True blocker id
      by (auto simp: handle_block_account_Some accounts_get_def)
    show ?thesis
    proof (rule edges_okI)
      fix x
      show "x \<notin> dd_val (following (follows (foldl (\<lambda>t e. effect e t) s1 evs))) x"
        using edges_okD(1) [OF ok, of x] by (auto simp: evs s1 following_effect)
    next
      fix x y a'
      assume e: "y \<in> dd_val (following (follows (foldl (\<lambda>t e. effect e t) s1 evs))) x"
        and a': "by_id (accounts (foldl (\<lambda>t e. effect e t) s1 evs)) y = Some a'"
      from e have old: "y \<in> dd_val (following (follows s)) x"
        and gone: "\<not> (x = aid_value a \<and> y = aid_value b)"
        by (auto simp: evs s1 following_effect split: if_splits)
      show "AccountId x \<notin> blocked a'"
      proof (cases "y = aid_value b")
        case True
        with a' have "a' = blocker\<lparr>blocked := insert a (blocked blocker)\<rparr>"
          by (simp add: evs s1 accounts_effect accounts_save_def id)
        moreover have "AccountId x \<notin> blocked blocker"
          using edges_okD(2) [OF ok old] blocker True by simp
        moreover have "AccountId x \<noteq> a" using gone True by auto
        ultimately show ?thesis by simp
      next
        case False
        with a' have "by_id (accounts s) y = Some a'"
          by (simp add: evs s1 accounts_effect accounts_save_def id)
        then show ?thesis using edges_okD(2) [OF ok old] by simp
      qed
    qed
  next
    case False
    with run BlockAccount ok show ?thesis
      by (auto simp: handle_block_account_None)
  qed
next
  case (RemoveFollower a b)
  with run ok show ?thesis
    by (cases a; cases b)
       (auto simp: handle_remove_follower_def Let_def case_prod_beta edges_ok_def
        following_effect accounts_effect val_simps split: if_splits)
next
  case (OtherCommand x)
  with run show ?thesis by simp
qed

lemma reachable_invariants:
  "reachable s \<Longrightarrow> accounts_ok (accounts s) \<and> edges_ok s \<and> mirrors s"
proof (induction rule: reachable.induct)
  case reachable_init
  show ?case
    by (simp add: init_app_def accounts_ok_def edges_ok_def mirrors_def dd_val_def)
next
  case (reachable_handle s cmd uuid n evs s')
  from handle_returns [OF reachable_handle.hyps(3)] obtain s1
    where run: "run_handler uuid cmd s = Some (evs, s1)"
      and s': "s' = foldl (\<lambda>t e. effect e t) s1 evs" by blast
  have "accounts_ok (accounts s')"
    using accounts_ok_step [OF _ reachable_handle.hyps(2) run] reachable_handle.IH
    by (simp add: s' accounts_foldl_effect)
  moreover have "edges_ok s'"
    using edges_ok_step [OF _ _ run] reachable_handle.IH by (simp add: s')
  moreover have "mirrors s'"
    using mirrors_step [OF _ run] reachable_handle.IH by (simp add: s')
  ultimately show ?case by simp
qed

section \<open>The scenario, step by step\<close>

lemma uuid_facts:
  "uuid_alice \<noteq> []" "uuid_bob \<noteq> []" "uuid_alice \<noteq> uuid_bob" "uuid_bob \<noteq> uuid_alice"
  "alice \<noteq> bob" "bob \<noteq> alice" "aid_value alice = uuid_alice" "aid_value bob = uuid_bob"
  by (simp_all add: uuid_alice_def uuid_bob_def alice_def bob_def)

lemmas run_defs =
  handle_register_account_def handle_follow_account_def handle_block_account_def
  handle_remove_follower_def block_def get_by_email_def get_by_username_def accounts_get_def
  accounts_save_def follows_exists_def follows_add_def follows_remove_def
  dd_get_def dd_add_def dd_discard_def effect_def project_def record_publish_def Let_def

lemmas scenario_defs =
  alice_account_def bob_account_def alice_registered_def bob_registered_def uuid_facts

lemma step_register_alice:
  "handle 2 uuid_alice (RegisterAccount (Email ''a@x.com'') (Username ''alice_uk'')) init_app =
   Some (Inr ([alice_registered], one_account))"
  by (simp add: numeral_2_eq_2 handle_unfold run_defs scenario_defs init_app_def
      one_account_def alice_def del: handle.simps)

lemma step_register_bob:
  "handle 2 uuid_bob (RegisterAccount (Email ''b@x.com'') (Username ''bob_uk'')) one_account =
   Some (Inr ([bob_registered], two_accounts))"
  by (simp add: numeral_2_eq_2 handle_unfold run_defs scenario_defs one_account_def
      two_accounts_def bob_def del: handle.simps)

lemma step_follow:
  "handle 2 uuid_spare (FollowAccount alice bob) two_accounts =
   Some (Inr ([AccountFollowed alice bob], alice_follows_bob))"
  by (simp add: numeral_2_eq_2 handle_unfold run_defs scenario_defs
      two_accounts_def alice_follows_bob_def del: handle.simps)

lemma step_bob_blocks:
  "handle 2 uuid_spare (BlockAccount bob alice) alice_follows_bob =
   Some (Inr ([AccountBlocked bob alice], bob_blocked_alice))"
  by (simp add: numeral_2_eq_2 handle_unfold run_defs scenario_defs
      two_accounts_def alice_follows_bob_def bob_blocked_alice_def del: handle.simps)

lemma step_alice_blocks:
  "handle 2 uuid_spare (BlockAccount alice bob) alice_follows_bob =
   Some (Inr ([AccountBlocked alice bob], alice_blocked_bob))"
  by (simp add: numeral_2_eq_2 handle_unfold run_defs scenario_defs
      two_accounts_def alice_follows_bob_def alice_blocked_bob_def del: handle.simps)
     (auto simp: fun_eq_iff uuid_facts)

lemma reachable_one_account: "reachable one_account"
  by (rule reachable_handle [OF reachable_init _ step_register_alice])
     (simp add: fresh_id_def init_app_def uuid_facts)

lemma reachable_two_accounts: "reachable two_accounts"
  by (rule reachable_handle [OF reachable_one_account _ step_register_bob])
     (simp add: fresh_id_def one_account_def uuid_facts)

lemma reachable_alice_follows_bob: "reachable alice_follows_bob"
  by (rule reachable_handle [OF reachable_two_accounts _ step_follow]) simp

lemma reachable_bob_blocked_alice: "reachable bob_blocked_alice"
  by (rule reachable_handle [OF reachable_alice_follows_bob _ step_bob_blocks]) simp

lemma reachable_alice_blocked_bob: "reachable alice_blocked_bob"
  by (rule reachable_handle [OF reachable_alice_follows_bob _ step_alice_blocks]) simp

section \<open>Claims\<close>

subsection \<open>Validation of e-mail addresses and user names\<close>

text \<open>
  C8. The claim: \<open>Email\<close> is constructed exactly for strings of the shape
  local@domain.tld with no whitespace anywhere, and \<open>Username\<close> exactly for strings of
  3 to 32 characters from \<^verbatim>\<open>[A-Za-z0-9_]\<close>. The code anchors both patterns with
  \<^verbatim>\<open>$\<close>, which also holds before a final newline: the address \<^verbatim>\<open>a@b.c\<close> followed by
  a newline, which is whitespace, is accepted, and so is the name \<^verbatim>\<open>abc\<close> followed by
  a newline, which is not a character of the class. Without the newline both are
  accepted as intended.
\<close>

theorem trailing_newline_passes_validation:
  "Email_new (''a@b.c'' @ [CHR 0x0A]) = Inr (Email (''a@b.c'' @ [CHR 0x0A])) \<and>
   is_space (CHR 0x0A) \<and>
   Username_new (''abc'' @ [CHR 0x0A]) = Inr (Username (''abc'' @ [CHR 0x0A])) \<and>
   \<not> word_char (CHR 0x0A) \<and>
   Email_new ''a@b.c'' = Inr (Email ''a@b.c'') \<and>
   Username_new ''abc'' = Inr (Username ''abc'')"
  by code_simp

subsection \<open>Termination of the cascade\<close>

text \<open>
  C10. \<open>handle\<close> returns for every command in every state, with a nesting budget of
  two: the call itself and one nested call. The nested call is the one the policy
  makes, for \<open>RemoveFollower\<close>, and it needs a budget of one only. The policy is
  subscribed to \<open>AccountBlocked\<close> and to no other event type; the handler of
  \<open>RemoveFollower\<close> produces nothing or one \<open>FollowerRemoved\<close>, whose only
  subscriber is the projector.
\<close>

theorem handle_terminates:
  "(\<exists>r. handle (Suc (Suc n)) uuid cmd s = Some r) \<and>
   (\<exists>r. handle (Suc n) uuid (RemoveFollower a b) s = Some r) \<and>
   set all_event_types = UNIV \<and>
   filter (\<lambda>t. On_account_blocked \<in> set (case subscribers t of None \<Rightarrow> [] | Some l \<Rightarrow> l))
     all_event_types = [T_AccountBlocked] \<and>
   (fst (handle_remove_follower a b s) = [] \<or>
    fst (handle_remove_follower a b s) = [FollowerRemoved a b ''Blocked'']) \<and>
   subscribers T_FollowerRemoved = Some [Project]"
proof -
  have "\<exists>r. handle (Suc (Suc n)) uuid cmd s = Some r"
    unfolding handle_unfold by (simp split: option.splits prod.splits)
  moreover have "\<exists>r. handle (Suc n) uuid (RemoveFollower a b) s = Some r"
    unfolding handle_RemoveFollower by simp
  moreover have "set all_event_types = UNIV"
  proof -
    have "t \<in> set all_event_types" for t
      by (cases t) (simp_all add: all_event_types_def)
    then show ?thesis by blast
  qed
  moreover have
    "filter (\<lambda>t. On_account_blocked \<in> set (case subscribers t of None \<Rightarrow> [] | Some l \<Rightarrow> l))
       all_event_types = [T_AccountBlocked]"
    by (simp add: all_event_types_def subscribers_simps)
  ultimately show ?thesis
    using handle_remove_follower_events [of a b s] by (simp add: subscribers_simps)
qed

subsection \<open>At most one event for a command\<close>

lemma handler_events_short:
  "run_handler uuid cmd s = Some (evs, s1) \<Longrightarrow> length evs \<le> 1"
proof (cases cmd)
  case (RegisterAccount e u)
  assume "run_handler uuid cmd s = Some (evs, s1)"
  with RegisterAccount show ?thesis
    by (auto simp: handle_register_account_def Let_def split: if_splits)
next
  case (FollowAccount a b)
  assume "run_handler uuid cmd s = Some (evs, s1)"
  with FollowAccount show ?thesis
    by (auto simp: handle_follow_account_def Let_def case_prod_beta
        split: if_splits option.splits)
next
  case (BlockAccount b a)
  assume "run_handler uuid cmd s = Some (evs, s1)"
  with BlockAccount handle_block_account_events [of b a s] show ?thesis by auto
next
  case (RemoveFollower a b)
  assume "run_handler uuid cmd s = Some (evs, s1)"
  with RemoveFollower handle_remove_follower_events [of a b s] show ?thesis by auto
next
  case (OtherCommand x)
  assume "run_handler uuid cmd s = Some (evs, s1)"
  with OtherCommand show ?thesis by simp
qed

text \<open>
  C9. For a command of one of the four registered kinds the handler returns a list of
  at most one event, and so does \<open>handle\<close> whenever it returns.
\<close>

theorem handlers_return_at_most_one_event:
  "(run_handler uuid cmd s = Some (evs, s1) \<longrightarrow> length evs \<le> 1) \<and>
   (handle n uuid cmd s = Some (Inr (evs', s')) \<longrightarrow> length evs' \<le> 1)"
  using handler_events_short handle_returns by blast

theorem handlers_return_at_most_one_event_witness:
  "run_handler uuid_spare (BlockAccount bob alice) alice_follows_bob =
     Some ([AccountBlocked bob alice], snd (handle_block_account bob alice alice_follows_bob)) \<and>
   handle 2 uuid_spare (BlockAccount bob alice) alice_follows_bob =
     Some (Inr ([AccountBlocked bob alice], bob_blocked_alice)) \<and>
   length [AccountBlocked bob alice] \<le> 1"
proof -
  have run: "run_handler uuid_spare (BlockAccount bob alice) alice_follows_bob =
     Some ([AccountBlocked bob alice], snd (handle_block_account bob alice alice_follows_bob))"
    by (simp add: run_defs scenario_defs two_accounts_def alice_follows_bob_def)
  from handlers_return_at_most_one_event
    [of uuid_spare "BlockAccount bob alice" alice_follows_bob "[AccountBlocked bob alice]"
      "snd (handle_block_account bob alice alice_follows_bob)" 2
      "[AccountBlocked bob alice]" bob_blocked_alice]
  show ?thesis using run step_bob_blocks by simp
qed

subsection \<open>Following\<close>

lemma publish_all_plain:
  "\<forall>ev\<in>set evs. type_of_event ev \<noteq> T_AccountBlocked \<Longrightarrow>
   publish_all h evs s = Some (Inr (foldl (\<lambda>t e. project e (record_publish e t)) s evs))"
  by (induction evs arbitrary: s) (simp_all add: publish_plain)

lemma handle_plain:
  assumes "run_handler uuid cmd s = Some (evs, s1)"
    and "\<forall>ev\<in>set evs. type_of_event ev \<noteq> T_AccountBlocked"
  shows "handle (Suc n) uuid cmd s =
         Some (Inr (evs, foldl (\<lambda>t e. project e (record_publish e t)) s1 evs))"
  using assms by (simp add: publish_all_plain)

lemma follows_exists_True:
  "fst (follows_exists r a b) \<Longrightarrow> snd (follows_exists r a b) = r"
  by (auto simp: follows_exists_def dd_get_def split: option.splits)

lemma follows_exists_twice:
  "follows_exists (snd (follows_exists r a b)) a b = follows_exists r a b"
  by (auto simp: follows_exists_def dd_get_def split: option.splits)

lemma follows_add_after_exists:
  "follows_add (snd (follows_exists r a b)) a b = follows_add r a b"
  by (simp add: follows_add_def follows_exists_twice)

lemma project_rejected [simp]:
  "project (FollowRejectedBlocked a b r) s = s"
  "project (AccountAlreadyExists e u r) s = s"
  "project (AccountRegistered i e' u') s = s"
  by (simp_all add: project_def)

text \<open>
  C1, amended. \<open>handle\<close> decides a \<open>FollowAccount\<close> command in this order, in every
  state. Follower equal to followee: one \<open>FollowRejectedBlocked\<close> with reason
  \<^verbatim>\<open>Cannot follow self\<close>, whether or not the account exists. Otherwise, one of the two
  accounts missing: reason \<^verbatim>\<open>Unknown accounts\<close>. Otherwise, one of the two has the
  other in its blocked set: reason \<^verbatim>\<open>Blocked relationship\<close>. Otherwise, the edge is
  already there: no event, and the state is the one before the call. Otherwise the
  edge is added, the projector sees \<open>AccountFollowed\<close>, which is the one event
  returned, and the edge exists afterwards. A rejection changes nothing but the log of
  published events. The reasons are the strings of the code, with capital initials.
\<close>

theorem follow_account_decision:
  "(a = b \<longrightarrow>
      handle (Suc n) uuid (FollowAccount a b) s =
        Some (Inr ([FollowRejectedBlocked a b ''Cannot follow self''],
                   record_publish (FollowRejectedBlocked a b ''Cannot follow self'') s))) \<and>
   (a \<noteq> b \<and> (accounts_get (accounts s) a = None \<or> accounts_get (accounts s) b = None) \<longrightarrow>
      handle (Suc n) uuid (FollowAccount a b) s =
        Some (Inr ([FollowRejectedBlocked a b ''Unknown accounts''],
                   record_publish (FollowRejectedBlocked a b ''Unknown accounts'') s))) \<and>
   (a \<noteq> b \<and> accounts_get (accounts s) a = Some follower \<and>
    accounts_get (accounts s) b = Some followee \<and>
    (b \<in> blocked follower \<or> a \<in> blocked followee) \<longrightarrow>
      handle (Suc n) uuid (FollowAccount a b) s =
        Some (Inr ([FollowRejectedBlocked a b ''Blocked relationship''],
                   record_publish (FollowRejectedBlocked a b ''Blocked relationship'') s))) \<and>
   (a \<noteq> b \<and> accounts_get (accounts s) a = Some follower \<and>
    accounts_get (accounts s) b = Some followee \<and>
    b \<notin> blocked follower \<and> a \<notin> blocked followee \<and>
    fst (follows_exists (follows s) a b) \<longrightarrow>
      handle (Suc n) uuid (FollowAccount a b) s = Some (Inr ([], s))) \<and>
   (a \<noteq> b \<and> accounts_get (accounts s) a = Some follower \<and>
    accounts_get (accounts s) b = Some followee \<and>
    b \<notin> blocked follower \<and> a \<notin> blocked followee \<and>
    \<not> fst (follows_exists (follows s) a b) \<longrightarrow>
      handle (Suc n) uuid (FollowAccount a b) s =
        Some (Inr ([AccountFollowed a b],
                   project (AccountFollowed a b) (record_publish (AccountFollowed a b)
                     (s\<lparr>follows := follows_add (follows s) a b\<rparr>)))) \<and>
      fst (follows_exists (follows_add (follows s) a b) a b))"
proof (intro conjI impI)
  assume "a = b"
  then have "run_handler uuid (FollowAccount a b) s =
      Some ([FollowRejectedBlocked a b ''Cannot follow self''], s)"
    by (simp add: handle_follow_account_def)
  from handle_plain [OF this] show "handle (Suc n) uuid (FollowAccount a b) s =
        Some (Inr ([FollowRejectedBlocked a b ''Cannot follow self''],
                   record_publish (FollowRejectedBlocked a b ''Cannot follow self'') s))"
    by simp
next
  assume "a \<noteq> b \<and> (accounts_get (accounts s) a = None \<or> accounts_get (accounts s) b = None)"
  then have "run_handler uuid (FollowAccount a b) s =
      Some ([FollowRejectedBlocked a b ''Unknown accounts''], s)"
    by (auto simp: handle_follow_account_def split: option.splits)
  from handle_plain [OF this] show "handle (Suc n) uuid (FollowAccount a b) s =
        Some (Inr ([FollowRejectedBlocked a b ''Unknown accounts''],
                   record_publish (FollowRejectedBlocked a b ''Unknown accounts'') s))"
    by simp
next
  assume "a \<noteq> b \<and> accounts_get (accounts s) a = Some follower \<and>
    accounts_get (accounts s) b = Some followee \<and>
    (b \<in> blocked follower \<or> a \<in> blocked followee)"
  then have "run_handler uuid (FollowAccount a b) s =
      Some ([FollowRejectedBlocked a b ''Blocked relationship''], s)"
    by (auto simp: handle_follow_account_def)
  from handle_plain [OF this] show "handle (Suc n) uuid (FollowAccount a b) s =
        Some (Inr ([FollowRejectedBlocked a b ''Blocked relationship''],
                   record_publish (FollowRejectedBlocked a b ''Blocked relationship'') s))"
    by simp
next
  assume "a \<noteq> b \<and> accounts_get (accounts s) a = Some follower \<and>
    accounts_get (accounts s) b = Some followee \<and>
    b \<notin> blocked follower \<and> a \<notin> blocked followee \<and>
    fst (follows_exists (follows s) a b)"
  then have "run_handler uuid (FollowAccount a b) s = Some ([], s)"
    by (auto simp: handle_follow_account_def case_prod_beta follows_exists_True)
  from handle_plain [OF this] show "handle (Suc n) uuid (FollowAccount a b) s = Some (Inr ([], s))"
    by simp
next
  assume h: "a \<noteq> b \<and> accounts_get (accounts s) a = Some follower \<and>
    accounts_get (accounts s) b = Some followee \<and>
    b \<notin> blocked follower \<and> a \<notin> blocked followee \<and>
    \<not> fst (follows_exists (follows s) a b)"
  then have "run_handler uuid (FollowAccount a b) s =
      Some ([AccountFollowed a b], s\<lparr>follows := follows_add (follows s) a b\<rparr>)"
    by (auto simp: handle_follow_account_def case_prod_beta follows_add_after_exists)
  from handle_plain [OF this] show "handle (Suc n) uuid (FollowAccount a b) s =
        Some (Inr ([AccountFollowed a b],
                   project (AccountFollowed a b) (record_publish (AccountFollowed a b)
                     (s\<lparr>follows := follows_add (follows s) a b\<rparr>))))"
    by simp
  show "fst (follows_exists (follows_add (follows s) a b) a b)"
    by (simp add: val_simps)
qed

theorem follow_account_decision_witness:
  "handle (Suc 0) uuid_spare (FollowAccount alice alice) init_app =
     Some (Inr ([FollowRejectedBlocked alice alice ''Cannot follow self''],
                record_publish (FollowRejectedBlocked alice alice ''Cannot follow self'') init_app)) \<and>
   handle (Suc 0) uuid_spare (FollowAccount alice bob) init_app =
     Some (Inr ([FollowRejectedBlocked alice bob ''Unknown accounts''],
                record_publish (FollowRejectedBlocked alice bob ''Unknown accounts'') init_app)) \<and>
   handle (Suc 0) uuid_spare (FollowAccount alice bob) bob_blocked_alice =
     Some (Inr ([FollowRejectedBlocked alice bob ''Blocked relationship''],
                record_publish (FollowRejectedBlocked alice bob ''Blocked relationship'')
                  bob_blocked_alice)) \<and>
   handle (Suc 0) uuid_spare (FollowAccount alice bob) alice_follows_bob =
     Some (Inr ([], alice_follows_bob)) \<and>
   handle (Suc 0) uuid_spare (FollowAccount alice bob) two_accounts =
     Some (Inr ([AccountFollowed alice bob], alice_follows_bob))"
proof (intro conjI)
  show "handle (Suc 0) uuid_spare (FollowAccount alice alice) init_app =
     Some (Inr ([FollowRejectedBlocked alice alice ''Cannot follow self''],
                record_publish (FollowRejectedBlocked alice alice ''Cannot follow self'') init_app))"
    using follow_account_decision [of alice alice 0 uuid_spare init_app] by simp
  show "handle (Suc 0) uuid_spare (FollowAccount alice bob) init_app =
     Some (Inr ([FollowRejectedBlocked alice bob ''Unknown accounts''],
                record_publish (FollowRejectedBlocked alice bob ''Unknown accounts'') init_app))"
    using follow_account_decision [of alice bob 0 uuid_spare init_app]
    by (simp add: uuid_facts accounts_get_def init_app_def)
  show "handle (Suc 0) uuid_spare (FollowAccount alice bob) bob_blocked_alice =
     Some (Inr ([FollowRejectedBlocked alice bob ''Blocked relationship''],
                record_publish (FollowRejectedBlocked alice bob ''Blocked relationship'')
                  bob_blocked_alice))"
    using follow_account_decision
      [of alice bob 0 uuid_spare bob_blocked_alice alice_account "bob_account\<lparr>blocked := {alice}\<rparr>"]
    by (simp add: uuid_facts accounts_get_def bob_blocked_alice_def)
  show "handle (Suc 0) uuid_spare (FollowAccount alice bob) alice_follows_bob =
     Some (Inr ([], alice_follows_bob))"
    using follow_account_decision
      [of alice bob 0 uuid_spare alice_follows_bob alice_account bob_account]
    by (simp add: uuid_facts accounts_get_def alice_follows_bob_def two_accounts_def
        alice_account_def bob_account_def follows_exists_def dd_get_def)
  have "project (AccountFollowed alice bob) (record_publish (AccountFollowed alice bob)
          (two_accounts\<lparr>follows := follows_add (follows two_accounts) alice bob\<rparr>)) =
        alice_follows_bob"
    by (simp add: run_defs scenario_defs two_accounts_def alice_follows_bob_def)
  then show "handle (Suc 0) uuid_spare (FollowAccount alice bob) two_accounts =
     Some (Inr ([AccountFollowed alice bob], alice_follows_bob))"
    using follow_account_decision
      [of alice bob 0 uuid_spare two_accounts alice_account bob_account]
    by (simp add: uuid_facts accounts_get_def two_accounts_def
        alice_account_def bob_account_def follows_exists_def dd_get_def)
qed

theorem follow_reasons_counterexample:
  "fst (handle_follow_account alice alice init_app) =
     [FollowRejectedBlocked alice alice ''Cannot follow self''] \<and>
   fst (handle_follow_account alice alice init_app) \<noteq>
     [FollowRejectedBlocked alice alice ''cannot follow self''] \<and>
   fst (handle_follow_account alice bob init_app) =
     [FollowRejectedBlocked alice bob ''Unknown accounts''] \<and>
   fst (handle_follow_account alice bob init_app) \<noteq>
     [FollowRejectedBlocked alice bob ''unknown accounts''] \<and>
   fst (handle_follow_account alice bob bob_blocked_alice) =
     [FollowRejectedBlocked alice bob ''Blocked relationship''] \<and>
   fst (handle_follow_account alice bob bob_blocked_alice) \<noteq>
     [FollowRejectedBlocked alice bob ''blocked relationship'']"
  by (simp add: handle_follow_account_def accounts_get_def init_app_def uuid_facts
      bob_blocked_alice_def alice_account_def bob_account_def)

subsection \<open>Dispatch, publication and return value\<close>

lemma published_project: "published (project e s) = published s"
  by (cases e) (simp_all add: project_def)

lemma published_foldl_plain:
  "published (foldl (\<lambda>t e. project e (record_publish e t)) s evs) = published s @ evs"
  by (induction evs arbitrary: s) (simp_all add: published_project record_publish_def)


lemma published_remove_handler:
  "published (snd (handle_remove_follower a b s)) = published s"
  by (simp add: handle_remove_follower_def case_prod_beta Let_def)

lemma published_handler:
  "run_handler uuid cmd s = Some (evs, s1) \<Longrightarrow> published s1 = published s"
  by (cases cmd)
     (auto simp: handle_register_account_def handle_follow_account_def
        handle_block_account_def handle_remove_follower_def block_def Let_def case_prod_beta
        split: if_splits option.splits)

lemma published_record_publish: "published (record_publish ev s) = published s @ [ev]"
  by (simp add: record_publish_def)

lemma published_effect: "published (effect ev s) = published s @ [ev] @ cascaded ev s"
  by (cases ev)
     (simp_all add: effect_def cascaded_def published_project published_foldl_plain
        published_remove_handler case_prod_beta published_record_publish)

lemma cascaded_apart: "ev \<notin> set (cascaded ev s)"
proof (cases ev)
  case (AccountBlocked b a)
  then show ?thesis
    using handle_remove_follower_events [of a b "record_publish ev s"]
    by (auto simp: cascaded_def)
qed (simp_all add: cascaded_def)

text \<open>
  C6. A command of a class without a handler makes \<open>handle\<close> raise \<open>ValueError\<close>
  with the message \<^verbatim>\<open>No handler for\<close> and the name of the class. Otherwise \<open>handle\<close>
  runs the handler, publishes the events it produced, in their order, and returns
  exactly these events. What nested calls publish enters the log of published events
  after the event that caused it, and is not among the events returned.
\<close>

theorem handle_dispatch:
  "handle (Suc n) uuid (OtherCommand name) s =
     Some (Inl (ValueError (''No handler for '' @ name))) \<and>
   (run_handler uuid cmd s = None \<longrightarrow>
      handle (Suc n) uuid cmd s = Some (Inl (ValueError (''No handler for '' @ type_name cmd)))) \<and>
   (run_handler uuid cmd s = Some (evs, s1) \<longrightarrow>
      (\<exists>s2. publish_all (handle (Suc n) uuid) evs s1 = Some (Inr s2) \<and>
            handle (Suc (Suc n)) uuid cmd s = Some (Inr (evs, s2)) \<and>
            published s2 = published s @ evs @ concat (map (\<lambda>ev. cascaded ev s1) evs) \<and>
            set (concat (map (\<lambda>ev. cascaded ev s1) evs)) \<inter> set evs = {}))"
proof (intro conjI impI)
  show "handle (Suc n) uuid (OtherCommand name) s =
     Some (Inl (ValueError (''No handler for '' @ name)))" by simp
next
  assume "run_handler uuid cmd s = None"
  then show "handle (Suc n) uuid cmd s =
      Some (Inl (ValueError (''No handler for '' @ type_name cmd)))" by simp
next
  assume run: "run_handler uuid cmd s = Some (evs, s1)"
  let ?s2 = "foldl (\<lambda>t e. effect e t) s1 evs"
  have 1: "publish_all (handle (Suc n) uuid) evs s1 = Some (Inr ?s2)"
    by (rule publish_all_effect)
  have 2: "handle (Suc (Suc n)) uuid cmd s = Some (Inr (evs, ?s2))"
    unfolding handle_unfold using run by simp
  have short: "evs = [] \<or> (\<exists>ev. evs = [ev])"
    using handler_events_short [OF run] by (cases evs) auto
  then have 3: "published ?s2 = published s @ evs @ concat (map (\<lambda>ev. cascaded ev s1) evs)"
    using published_handler [OF run] by (auto simp: published_effect)
  have 4: "set (concat (map (\<lambda>ev. cascaded ev s1) evs)) \<inter> set evs = {}"
    using short cascaded_apart by auto
  from 1 2 3 4 show "\<exists>s2. publish_all (handle (Suc n) uuid) evs s1 = Some (Inr s2) \<and>
            handle (Suc (Suc n)) uuid cmd s = Some (Inr (evs, s2)) \<and>
            published s2 = published s @ evs @ concat (map (\<lambda>ev. cascaded ev s1) evs) \<and>
            set (concat (map (\<lambda>ev. cascaded ev s1) evs)) \<inter> set evs = {}"
    by blast
qed

theorem handle_dispatch_witness:
  "run_handler uuid_spare (OtherCommand ''Ping'') init_app = None \<and>
   handle (Suc 0) uuid_spare (OtherCommand ''Ping'') init_app =
     Some (Inl (ValueError ''No handler for Ping'')) \<and>
   run_handler uuid_spare (BlockAccount bob alice) alice_follows_bob =
     Some ([AccountBlocked bob alice], snd (handle_block_account bob alice alice_follows_bob)) \<and>
   handle (Suc (Suc 0)) uuid_spare (BlockAccount bob alice) alice_follows_bob =
     Some (Inr ([AccountBlocked bob alice], bob_blocked_alice)) \<and>
   published bob_blocked_alice =
     published alice_follows_bob @
       [AccountBlocked bob alice] @ [FollowerRemoved alice bob ''Blocked'']"
proof -
  have run: "run_handler uuid_spare (BlockAccount bob alice) alice_follows_bob =
     Some ([AccountBlocked bob alice], snd (handle_block_account bob alice alice_follows_bob))"
    by (simp add: run_defs scenario_defs two_accounts_def alice_follows_bob_def)
  have step: "handle (Suc (Suc 0)) uuid_spare (BlockAccount bob alice) alice_follows_bob =
     Some (Inr ([AccountBlocked bob alice], bob_blocked_alice))"
    using step_bob_blocks by (simp add: numeral_2_eq_2 del: handle.simps)
  have pub: "published bob_blocked_alice =
     published alice_follows_bob @
       [AccountBlocked bob alice] @ [FollowerRemoved alice bob ''Blocked'']"
    by (simp add: bob_blocked_alice_def alice_follows_bob_def)
  from handle_dispatch [of 0 uuid_spare "''Ping''" init_app "OtherCommand ''Ping''"]
  have "handle (Suc 0) uuid_spare (OtherCommand ''Ping'') init_app =
     Some (Inl (ValueError ''No handler for Ping''))" by simp
  moreover from handle_dispatch
    [of 0 uuid_spare "''Ping''" alice_follows_bob "BlockAccount bob alice"
      "[AccountBlocked bob alice]" "snd (handle_block_account bob alice alice_follows_bob)"] run
  have "\<exists>s2. handle (Suc (Suc 0)) uuid_spare (BlockAccount bob alice) alice_follows_bob =
      Some (Inr ([AccountBlocked bob alice], s2))" by blast
  ultimately show ?thesis using run step pub by simp
qed

subsection \<open>Blocking removes the follow of the blocked account\<close>

lemma remove_follower_present:
  "fst (follows_exists (follows s) a b) \<Longrightarrow>
   fst (handle_remove_follower a b s) = [FollowerRemoved a b ''Blocked'']"
  by (simp add: handle_remove_follower_def case_prod_beta)

lemma handle_one_block_needs_budget:
  "fst (handle_block_account b a s) \<noteq> [] \<Longrightarrow> handle (Suc 0) uuid (BlockAccount b a) s = None"
  using handle_block_account_events [of b a s]
  by (cases "handle_block_account b a s")
     (auto simp: publish_def subscribers_simps on_account_blocked_def)

text \<open>
  C2. In a reachable state where \<open>a\<close> and \<open>b\<close> are registered and \<open>a\<close> follows \<open>b\<close>,
  handling \<open>BlockAccount b a\<close> returns the one event \<open>AccountBlocked b a\<close>; afterwards
  the edge from \<open>a\<close> to \<open>b\<close> is gone and \<open>FollowerRemoved a b\<close> has been published
  right after \<open>AccountBlocked b a\<close>. The handler of \<open>BlockAccount\<close> leaves the follow
  repository as it is, and with a budget of one call, which allows no nested call,
  \<open>handle\<close> does not get through: the removal is the work of the nested call that
  the policy makes.
\<close>

theorem block_removes_follow:
  assumes "reachable s"
    and "accounts_get (accounts s) a = Some acc_a"
    and "accounts_get (accounts s) b = Some acc_b"
    and "fst (follows_exists (follows s) a b)"
  shows "\<exists>s'. handle (Suc (Suc n)) uuid (BlockAccount b a) s =
                Some (Inr ([AccountBlocked b a], s')) \<and>
              \<not> fst (follows_exists (follows s') a b) \<and>
              published s' = published s @ [AccountBlocked b a, FollowerRemoved a b ''Blocked''] \<and>
              follows (snd (handle_block_account b a s)) = follows s \<and>
              handle (Suc 0) uuid (BlockAccount b a) s = None"
proof -
  from reachable_invariants [OF assms(1)]
  have acc: "accounts_ok (accounts s)" and edges: "edges_ok s" by simp_all
  have edge: "aid_value b \<in> dd_val (following (follows s)) (aid_value a)"
    using assms(4) by (simp add: follows_exists_fst)
  have ne: "b \<noteq> a" using edge edges_okD(1) [OF edges] by auto
  have id: "acct_id acc_b = b"
    using accounts_okD(2) [OF acc] assms(3) by (simp add: accounts_get_def)
  let ?ev = "AccountBlocked b a"
  let ?s1 = "s\<lparr>accounts := accounts_save (accounts s) (acc_b\<lparr>blocked := insert a (blocked acc_b)\<rparr>)\<rparr>"
  have h: "handle_block_account b a s = ([?ev], ?s1)"
    using handle_block_account_Some [OF ne assms(3) assms(2)] id by simp
  have 1: "handle (Suc (Suc n)) uuid (BlockAccount b a) s = Some (Inr ([?ev], effect ?ev ?s1))"
    unfolding handle_unfold by (simp add: h)
  have 2: "\<not> fst (follows_exists (follows (effect ?ev ?s1)) a b)"
    by (simp add: follows_exists_fst following_effect)
  have "cascaded ?ev ?s1 = [FollowerRemoved a b ''Blocked'']"
    using assms(4) by (simp add: cascaded_def remove_follower_present record_publish_def)
  then have 3: "published (effect ?ev ?s1) =
      published s @ [AccountBlocked b a, FollowerRemoved a b ''Blocked'']"
    by (simp add: published_effect)
  have 4: "follows (snd (handle_block_account b a s)) = follows s" by (simp add: h)
  have 5: "handle (Suc 0) uuid (BlockAccount b a) s = None"
    by (rule handle_one_block_needs_budget) (simp add: h)
  from 1 2 3 4 5 show ?thesis by blast
qed

theorem block_removes_follow_witness:
  "reachable alice_follows_bob \<and>
   accounts_get (accounts alice_follows_bob) alice = Some alice_account \<and>
   accounts_get (accounts alice_follows_bob) bob = Some bob_account \<and>
   fst (follows_exists (follows alice_follows_bob) alice bob) \<and>
   (\<exists>s'. handle (Suc (Suc 0)) uuid_spare (BlockAccount bob alice) alice_follows_bob =
           Some (Inr ([AccountBlocked bob alice], s')) \<and>
         \<not> fst (follows_exists (follows s') alice bob) \<and>
         published s' =
           published alice_follows_bob @
             [AccountBlocked bob alice, FollowerRemoved alice bob ''Blocked''])"
proof -
  have a: "accounts_get (accounts alice_follows_bob) alice = Some alice_account"
    and b: "accounts_get (accounts alice_follows_bob) bob = Some bob_account"
    and e: "fst (follows_exists (follows alice_follows_bob) alice bob)"
    by (simp_all add: accounts_get_def alice_follows_bob_def two_accounts_def uuid_facts
        follows_exists_def dd_get_def)
  from block_removes_follow [OF reachable_alice_follows_bob a b e, of 0 uuid_spare]
  show ?thesis using reachable_alice_follows_bob a b e by blast
qed

subsection \<open>Blocking twice\<close>

lemma following_key_after_remove:
  "following (follows (snd (handle_remove_follower a b s))) (aid_value a) =
   Some (dd_val (following (follows s)) (aid_value a) - {aid_value b})"
  by (auto simp: handle_remove_follower_def follows_exists_def follows_remove_def dd_get_def
      dd_discard_def dd_val_def case_prod_beta Let_def split: option.splits)

lemma follows_project: "follows (project e s) = follows s"
  by (cases e) (simp_all add: project_def)

lemma follows_record_publish: "follows (record_publish e s) = follows s"
  by (simp add: record_publish_def)

lemma follows_foldl_plain:
  "follows (foldl (\<lambda>t e. project e (record_publish e t)) s evs) = follows s"
  by (induction evs arbitrary: s) (simp_all add: follows_project record_publish_def)

lemma following_key_after_effect:
  "following (follows (effect (AccountBlocked b a) s)) (aid_value a) =
   Some (dd_val (following (follows s)) (aid_value a) - {aid_value b})"
  using following_key_after_remove [of a b "record_publish (AccountBlocked b a) s"]
  by (simp add: effect_def case_prod_beta follows_foldl_plain follows_record_publish)

lemma remove_follower_noop:
  "following (follows s) (aid_value a) = Some S \<Longrightarrow> aid_value b \<notin> S \<Longrightarrow>
   handle_remove_follower a b s = ([], s)"
  by (simp add: handle_remove_follower_def follows_exists_def dd_get_def)

lemma effect_blocked_noop:
  assumes "following (follows s) (aid_value a) = Some S" "aid_value b \<notin> S"
  shows "effect (AccountBlocked b a) s = record_publish (AccountBlocked b a) s"
proof -
  have "handle_remove_follower a b (record_publish (AccountBlocked b a) s) =
        ([], record_publish (AccountBlocked b a) s)"
    by (rule remove_follower_noop [where S = S]) (simp_all add: assms record_publish_def)
  then show ?thesis by (simp add: effect_def)
qed

lemma accounts_save_same:
  "by_id r (aid_value (acct_id x)) = Some x \<Longrightarrow>
   by_email r (email_value (acct_email x)) = Some (aid_value (acct_id x)) \<Longrightarrow>
   by_username r (username_value (acct_username x)) = Some (aid_value (acct_id x)) \<Longrightarrow>
   accounts_save r x = r"
  by (simp add: accounts_save_def map_upd_triv)

text \<open>
  C7. \<open>Account.block\<close> always returns \<open>AccountBlocked\<close> for the account and the other
  id, the blocked set afterwards is the old one with the other id added, and a second
  call returns the same fact and leaves the account as it is. For two different
  registered accounts in a reachable state, handling \<open>BlockAccount b a\<close> returns
  \<open>AccountBlocked b a\<close>, and handling it again returns \<open>AccountBlocked b a\<close> again and
  changes nothing but the log of published events. The blocked set is a set, so it
  holds the id once.
\<close>

theorem block_idempotent:
  "fst (block acc other) = AccountBlocked (acct_id acc) other \<and>
   blocked (snd (block acc other)) = insert other (blocked acc) \<and>
   block (snd (block acc other)) other =
     (AccountBlocked (acct_id acc) other, snd (block acc other)) \<and>
   (reachable s \<and> b \<noteq> a \<and> accounts_get (accounts s) b = Some blocker \<and>
    accounts_get (accounts s) a = Some other_acc \<and>
    handle (Suc (Suc n)) uuid (BlockAccount b a) s = Some (Inr (evs, s1)) \<longrightarrow>
      evs = [AccountBlocked b a] \<and>
      accounts_get (accounts s1) b = Some (blocker\<lparr>blocked := insert a (blocked blocker)\<rparr>) \<and>
      handle (Suc (Suc m)) uuid' (BlockAccount b a) s1 =
        Some (Inr ([AccountBlocked b a], record_publish (AccountBlocked b a) s1)))"
proof (intro conjI impI)
  show "fst (block acc other) = AccountBlocked (acct_id acc) other"
    by (simp add: block_def)
  show "blocked (snd (block acc other)) = insert other (blocked acc)"
    by (auto simp: block_def)
  show "block (snd (block acc other)) other =
     (AccountBlocked (acct_id acc) other, snd (block acc other))"
    by (simp add: block_def)
next
  assume h: "reachable s \<and> b \<noteq> a \<and> accounts_get (accounts s) b = Some blocker \<and>
    accounts_get (accounts s) a = Some other_acc \<and>
    handle (Suc (Suc n)) uuid (BlockAccount b a) s = Some (Inr (evs, s1))"
  then have acc: "accounts_ok (accounts s)" using reachable_invariants by blast
  from h have ne: "b \<noteq> a" and gb: "accounts_get (accounts s) b = Some blocker"
    and ga: "accounts_get (accounts s) a = Some other_acc" by simp_all
  let ?ev = "AccountBlocked b a"
  let ?blocker = "blocker\<lparr>blocked := insert a (blocked blocker)\<rparr>"
  let ?s0 = "s\<lparr>accounts := accounts_save (accounts s) ?blocker\<rparr>"
  have id: "acct_id blocker = b"
    using accounts_okD(2) [OF acc] gb by (simp add: accounts_get_def)
  have mail: "by_email (accounts s) (email_value (acct_email blocker)) = Some (aid_value b)"
    and name: "by_username (accounts s) (username_value (acct_username blocker)) =
                 Some (aid_value b)"
    using accounts_okD(3,4) [OF acc] gb by (simp_all add: accounts_get_def)
  have first: "handle_block_account b a s = ([?ev], ?s0)"
    using handle_block_account_Some [OF ne gb ga] id by simp
  with h have evs: "evs = [?ev]" and s1: "s1 = effect ?ev ?s0"
    unfolding handle_unfold by simp_all
  show "evs = [AccountBlocked b a]" by (rule evs)
  have accs: "accounts s1 = accounts_save (accounts s) ?blocker"
    by (simp add: s1 accounts_effect)
  show gb1: "accounts_get (accounts s1) b = Some ?blocker"
    by (simp add: accs accounts_get_def accounts_save_def id)
  have ga1: "accounts_get (accounts s1) a = Some other_acc"
    using ga ne by (simp add: accs accounts_get_def accounts_save_def id aid_value_eq)
  have same: "accounts_save (accounts s1) ?blocker = accounts s1"
    by (rule accounts_save_same) (simp_all add: accs accounts_save_def id)
  have second: "handle_block_account b a s1 = ([?ev], s1)"
    using handle_block_account_Some [OF ne gb1 ga1] by (simp add: id same)
  have "effect ?ev s1 = record_publish ?ev s1"
    by (rule effect_blocked_noop [where S = "dd_val (following (follows ?s0)) (aid_value a) - {aid_value b}"])
       (simp_all add: s1 following_key_after_effect)
  then show "handle (Suc (Suc m)) uuid' (BlockAccount b a) s1 =
        Some (Inr ([AccountBlocked b a], record_publish (AccountBlocked b a) s1))"
    unfolding handle_unfold by (simp add: second)
qed

theorem block_idempotent_witness:
  "reachable alice_follows_bob \<and> bob \<noteq> alice \<and>
   accounts_get (accounts alice_follows_bob) bob = Some bob_account \<and>
   accounts_get (accounts alice_follows_bob) alice = Some alice_account \<and>
   handle (Suc (Suc 0)) uuid_spare (BlockAccount bob alice) alice_follows_bob =
     Some (Inr ([AccountBlocked bob alice], bob_blocked_alice)) \<and>
   accounts_get (accounts bob_blocked_alice) bob = Some (bob_account\<lparr>blocked := {alice}\<rparr>) \<and>
   handle (Suc (Suc 0)) uuid_spare (BlockAccount bob alice) bob_blocked_alice =
     Some (Inr ([AccountBlocked bob alice],
                record_publish (AccountBlocked bob alice) bob_blocked_alice))"
proof -
  have a: "accounts_get (accounts alice_follows_bob) alice = Some alice_account"
    and b: "accounts_get (accounts alice_follows_bob) bob = Some bob_account"
    by (simp_all add: accounts_get_def alice_follows_bob_def two_accounts_def uuid_facts)
  have step: "handle (Suc (Suc 0)) uuid_spare (BlockAccount bob alice) alice_follows_bob =
     Some (Inr ([AccountBlocked bob alice], bob_blocked_alice))"
    using step_bob_blocks by (simp add: numeral_2_eq_2 del: handle.simps)
  have "blocked bob_account = {}" by (simp add: bob_account_def)
  with block_idempotent
    [of bob_account alice alice_follows_bob bob alice bob_account alice_account 0 uuid_spare
      "[AccountBlocked bob alice]" bob_blocked_alice 0 uuid_spare]
    reachable_alice_follows_bob a b step uuid_facts(6)
  show ?thesis by simp
qed

subsection \<open>Registration\<close>

lemma handle_register_decided:
  assumes "accounts_ok (accounts s)"
  shows "handle_register_account uuid e u s =
     (if \<exists>x \<in> ran (by_id (accounts s)). acct_email x = e \<or> acct_username x = u
      then ([AccountAlreadyExists (Some e) (Some u) ''Duplicate email or username''], s)
      else ([AccountRegistered (AccountId uuid) e u],
            s\<lparr>accounts := accounts_save (accounts s)
               \<lparr>acct_id = AccountId uuid, acct_email = e, acct_username = u, blocked = {}\<rparr>\<rparr>))"
proof -
  have "(get_by_email (accounts s) e \<noteq> None \<or> get_by_username (accounts s) u \<noteq> None) =
        (\<exists>x \<in> ran (by_id (accounts s)). acct_email x = e \<or> acct_username x = u)"
    unfolding get_by_email_ok [OF assms] get_by_username_ok [OF assms] by blast
  then show ?thesis
    by (simp add: handle_register_account_def Let_def del: not_None_eq)
qed

text \<open>
  C4, amended. In a reachable state, with a fresh identifier from \<^verbatim>\<open>uuid4\<close>: if an
  account in the repository has the e-mail address or the user name of the command,
  \<open>handle\<close> returns the one event \<open>AccountAlreadyExists\<close> with reason
  \<^verbatim>\<open>Duplicate email or username\<close> and the repository is unchanged; otherwise it returns
  the one event \<open>AccountRegistered\<close> for the new identifier and the repository holds
  the new account under that identifier, which was not in use.
\<close>

theorem register_account_decision:
  assumes "reachable s" and "fresh_id uuid s"
  shows
  "((\<exists>x \<in> ran (by_id (accounts s)). acct_email x = e \<or> acct_username x = u) \<longrightarrow>
      handle (Suc n) uuid (RegisterAccount e u) s =
        Some (Inr ([AccountAlreadyExists (Some e) (Some u) ''Duplicate email or username''],
                   record_publish
                     (AccountAlreadyExists (Some e) (Some u) ''Duplicate email or username'') s))) \<and>
   (\<not> (\<exists>x \<in> ran (by_id (accounts s)). acct_email x = e \<or> acct_username x = u) \<longrightarrow>
      handle (Suc n) uuid (RegisterAccount e u) s =
        Some (Inr ([AccountRegistered (AccountId uuid) e u],
                   record_publish (AccountRegistered (AccountId uuid) e u)
                     (s\<lparr>accounts := accounts_save (accounts s)
                        \<lparr>acct_id = AccountId uuid, acct_email = e, acct_username = u,
                         blocked = {}\<rparr>\<rparr>))) \<and>
      by_id (accounts_save (accounts s)
               \<lparr>acct_id = AccountId uuid, acct_email = e, acct_username = u, blocked = {}\<rparr>) =
        (by_id (accounts s))
          (uuid \<mapsto> \<lparr>acct_id = AccountId uuid, acct_email = e, acct_username = u, blocked = {}\<rparr>) \<and>
      uuid \<notin> dom (by_id (accounts s)))"
proof -
  have acc: "accounts_ok (accounts s)" using reachable_invariants [OF assms(1)] by simp
  show ?thesis
  proof (intro conjI impI)
    assume dup: "\<exists>x \<in> ran (by_id (accounts s)). acct_email x = e \<or> acct_username x = u"
    have "run_handler uuid (RegisterAccount e u) s =
        Some ([AccountAlreadyExists (Some e) (Some u) ''Duplicate email or username''], s)"
      using dup by (simp add: handle_register_decided [OF acc])
    from handle_plain [OF this] show "handle (Suc n) uuid (RegisterAccount e u) s =
        Some (Inr ([AccountAlreadyExists (Some e) (Some u) ''Duplicate email or username''],
                   record_publish
                     (AccountAlreadyExists (Some e) (Some u) ''Duplicate email or username'') s))"
      by simp
  next
    assume new: "\<not> (\<exists>x \<in> ran (by_id (accounts s)). acct_email x = e \<or> acct_username x = u)"
    have "run_handler uuid (RegisterAccount e u) s =
        Some ([AccountRegistered (AccountId uuid) e u],
              s\<lparr>accounts := accounts_save (accounts s)
                 \<lparr>acct_id = AccountId uuid, acct_email = e, acct_username = u, blocked = {}\<rparr>\<rparr>)"
      using new by (simp add: handle_register_decided [OF acc])
    from handle_plain [OF this] show "handle (Suc n) uuid (RegisterAccount e u) s =
        Some (Inr ([AccountRegistered (AccountId uuid) e u],
                   record_publish (AccountRegistered (AccountId uuid) e u)
                     (s\<lparr>accounts := accounts_save (accounts s)
                        \<lparr>acct_id = AccountId uuid, acct_email = e, acct_username = u,
                         blocked = {}\<rparr>\<rparr>)))"
      by simp
    show "by_id (accounts_save (accounts s)
               \<lparr>acct_id = AccountId uuid, acct_email = e, acct_username = u, blocked = {}\<rparr>) =
        (by_id (accounts s))
          (uuid \<mapsto> \<lparr>acct_id = AccountId uuid, acct_email = e, acct_username = u, blocked = {}\<rparr>)"
      by (simp add: accounts_save_def)
    show "uuid \<notin> dom (by_id (accounts s))"
      using assms(2) by (auto simp: fresh_id_def)
  qed
qed

theorem register_account_decision_witness:
  "reachable one_account \<and> fresh_id uuid_bob one_account \<and>
   (\<exists>x \<in> ran (by_id (accounts one_account)).
      acct_email x = Email ''a@x.com'' \<or> acct_username x = Username ''bob_uk'') \<and>
   handle (Suc 0) uuid_bob (RegisterAccount (Email ''a@x.com'') (Username ''bob_uk'')) one_account =
     Some (Inr ([AccountAlreadyExists (Some (Email ''a@x.com'')) (Some (Username ''bob_uk''))
                   ''Duplicate email or username''],
                record_publish
                  (AccountAlreadyExists (Some (Email ''a@x.com'')) (Some (Username ''bob_uk''))
                     ''Duplicate email or username'') one_account)) \<and>
   dom (by_id (accounts (record_publish
          (AccountAlreadyExists (Some (Email ''a@x.com'')) (Some (Username ''bob_uk''))
             ''Duplicate email or username'') one_account))) = {uuid_alice} \<and>
   \<not> (\<exists>x \<in> ran (by_id (accounts one_account)).
      acct_email x = Email ''b@x.com'' \<or> acct_username x = Username ''bob_uk'') \<and>
   handle (Suc 0) uuid_bob (RegisterAccount (Email ''b@x.com'') (Username ''bob_uk'')) one_account =
     Some (Inr ([bob_registered], two_accounts))"
proof -
  have fresh: "fresh_id uuid_bob one_account"
    by (simp add: fresh_id_def one_account_def uuid_facts)
  have dup: "\<exists>x \<in> ran (by_id (accounts one_account)).
      acct_email x = Email ''a@x.com'' \<or> acct_username x = Username ''bob_uk''"
    by (simp add: one_account_def alice_account_def)
  have new: "\<not> (\<exists>x \<in> ran (by_id (accounts one_account)).
      acct_email x = Email ''b@x.com'' \<or> acct_username x = Username ''bob_uk'')"
    by (simp add: one_account_def alice_account_def)
  have one: "dom (by_id (accounts (record_publish
          (AccountAlreadyExists (Some (Email ''a@x.com'')) (Some (Username ''bob_uk''))
             ''Duplicate email or username'') one_account))) = {uuid_alice}"
    by (simp add: record_publish_def one_account_def)
  have st: "record_publish (AccountRegistered (AccountId uuid_bob) (Email ''b@x.com'')
              (Username ''bob_uk''))
            (one_account\<lparr>accounts := accounts_save (accounts one_account)
               \<lparr>acct_id = AccountId uuid_bob, acct_email = Email ''b@x.com'',
                acct_username = Username ''bob_uk'', blocked = {}\<rparr>\<rparr>) = two_accounts"
    by (simp add: run_defs scenario_defs one_account_def two_accounts_def bob_def)
  from register_account_decision [OF reachable_one_account fresh,
      of "Email ''a@x.com''" "Username ''bob_uk''" 0] dup
  have 1: "handle (Suc 0) uuid_bob (RegisterAccount (Email ''a@x.com'') (Username ''bob_uk''))
      one_account =
     Some (Inr ([AccountAlreadyExists (Some (Email ''a@x.com'')) (Some (Username ''bob_uk''))
                   ''Duplicate email or username''],
                record_publish
                  (AccountAlreadyExists (Some (Email ''a@x.com'')) (Some (Username ''bob_uk''))
                     ''Duplicate email or username'') one_account))"
    by blast
  from register_account_decision [OF reachable_one_account fresh,
      of "Email ''b@x.com''" "Username ''bob_uk''" 0] new
  have 2: "handle (Suc 0) uuid_bob (RegisterAccount (Email ''b@x.com'') (Username ''bob_uk''))
      one_account = Some (Inr ([bob_registered], two_accounts))"
    unfolding st bob_registered_def bob_def by blast
  from reachable_one_account fresh dup new one 1 2 show ?thesis by blast
qed

theorem duplicate_reason_counterexample:
  "by_id (accounts one_account) uuid_alice = Some alice_account \<and>
   acct_email alice_account = Email ''a@x.com'' \<and>
   fst (handle_register_account uuid_bob (Email ''a@x.com'') (Username ''bob_uk'') one_account) =
     [AccountAlreadyExists (Some (Email ''a@x.com'')) (Some (Username ''bob_uk''))
        ''Duplicate email or username''] \<and>
   fst (handle_register_account uuid_bob (Email ''a@x.com'') (Username ''bob_uk'') one_account) \<noteq>
     [AccountAlreadyExists (Some (Email ''a@x.com'')) (Some (Username ''bob_uk'')) ''duplicate'']"
  by (simp add: handle_register_account_def get_by_email_def get_by_username_def
      one_account_def alice_account_def uuid_facts)

subsection \<open>Edges and blocked sets\<close>

text \<open>
  C3, amended. In every reachable state no account follows itself, and no edge from
  \<open>x\<close> to \<open>y\<close> exists while the account of \<open>y\<close>, the followee, has \<open>x\<close> in its blocked
  set. Nothing is said of an edge whose follower has blocked the followee: the policy
  removes the edge from the blocked account to the blocker only.
\<close>

theorem follow_edges_invariant:
  assumes "reachable s"
  shows "\<not> fst (follows_exists (follows s) x x) \<and>
         (fst (follows_exists (follows s) x y) \<and> accounts_get (accounts s) y = Some acc \<longrightarrow>
            x \<notin> blocked acc)"
proof -
  have edges: "edges_ok s" using reachable_invariants [OF assms] by simp
  have "\<not> fst (follows_exists (follows s) x x)"
    using edges_okD(1) [OF edges] by (simp add: follows_exists_fst)
  moreover have "x \<notin> blocked acc"
    if "fst (follows_exists (follows s) x y)" "accounts_get (accounts s) y = Some acc"
    using edges_okD(2) [OF edges, of "aid_value y" "aid_value x" acc] that
    by (simp add: follows_exists_fst accounts_get_def)
  ultimately show ?thesis by blast
qed

theorem follow_edges_invariant_witness:
  "reachable alice_follows_bob \<and>
   \<not> fst (follows_exists (follows alice_follows_bob) alice alice) \<and>
   fst (follows_exists (follows alice_follows_bob) alice bob) \<and>
   accounts_get (accounts alice_follows_bob) bob = Some bob_account \<and>
   alice \<notin> blocked bob_account"
proof -
  have b: "accounts_get (accounts alice_follows_bob) bob = Some bob_account"
    and e: "fst (follows_exists (follows alice_follows_bob) alice bob)"
    by (simp_all add: accounts_get_def alice_follows_bob_def two_accounts_def uuid_facts
        follows_exists_def dd_get_def)
  from follow_edges_invariant [OF reachable_alice_follows_bob, of alice bob bob_account]
    follow_edges_invariant [OF reachable_alice_follows_bob, of alice alice bob_account]
  show ?thesis using reachable_alice_follows_bob b e by blast
qed

theorem blocker_keeps_own_follow_counterexample:
  "reachable alice_follows_bob \<and>
   fst (follows_exists (follows alice_follows_bob) alice bob) \<and>
   handle 2 uuid_spare (BlockAccount alice bob) alice_follows_bob =
     Some (Inr ([AccountBlocked alice bob], alice_blocked_bob)) \<and>
   reachable alice_blocked_bob \<and>
   fst (follows_exists (follows alice_blocked_bob) alice bob) \<and>
   accounts_get (accounts alice_blocked_bob) alice = Some (alice_account\<lparr>blocked := {bob}\<rparr>) \<and>
   bob \<in> blocked (alice_account\<lparr>blocked := {bob}\<rparr>)"
  using reachable_alice_follows_bob reachable_alice_blocked_bob step_alice_blocks
  by (simp add: accounts_get_def alice_follows_bob_def alice_blocked_bob_def uuid_facts
      follows_exists_def dd_get_def del: handle.simps)

subsection \<open>The read model\<close>

text \<open>
  C5. In every reachable state the read model holds, for every id, the following set
  and the followers set that the follow repository holds. Every call of \<open>handle\<close>
  that returns, nested or not, with any budget, takes a state where this is so to
  a state where this is so. The projector leaves the state as it is on
  \<open>AccountRegistered\<close>.
\<close>

theorem read_model_mirrors_follow_repo:
  "(reachable s \<longrightarrow>
      dd_val (read_following s) x = dd_val (following (follows s)) x \<and>
      dd_val (read_followers s) x = dd_val (followers (follows s)) x) \<and>
   (mirrors t \<and> handle n uuid cmd t = Some (Inr (evs, t')) \<longrightarrow> mirrors t') \<and>
   project (AccountRegistered i e u) t = t"
proof (intro conjI impI)
  assume "reachable s"
  then have "mirrors s" using reachable_invariants by blast
  then show "dd_val (read_following s) x = dd_val (following (follows s)) x"
    and "dd_val (read_followers s) x = dd_val (followers (follows s)) x"
    by (simp_all add: mirrors_def)
next
  assume h: "mirrors t \<and> handle n uuid cmd t = Some (Inr (evs, t'))"
  then obtain t1 where "run_handler uuid cmd t = Some (evs, t1)"
    and "t' = foldl (\<lambda>t e. effect e t) t1 evs"
    using handle_returns by blast
  then show "mirrors t'" using mirrors_step h by blast
next
  show "project (AccountRegistered i e u) t = t" by (simp add: project_def)
qed

theorem read_model_mirrors_follow_repo_witness:
  "reachable alice_follows_bob \<and>
   dd_val (read_following alice_follows_bob) uuid_alice = {uuid_bob} \<and>
   dd_val (following (follows alice_follows_bob)) uuid_alice = {uuid_bob} \<and>
   dd_val (read_followers alice_follows_bob) uuid_bob = {uuid_alice} \<and>
   dd_val (followers (follows alice_follows_bob)) uuid_bob = {uuid_alice} \<and>
   mirrors alice_follows_bob \<and>
   handle 2 uuid_spare (BlockAccount bob alice) alice_follows_bob =
     Some (Inr ([AccountBlocked bob alice], bob_blocked_alice)) \<and>
   mirrors bob_blocked_alice \<and>
   dd_val (read_following bob_blocked_alice) uuid_alice = {} \<and>
   dd_val (following (follows bob_blocked_alice)) uuid_alice = {}"
proof -
  have m: "mirrors alice_follows_bob"
    using reachable_invariants [OF reachable_alice_follows_bob] by simp
  from read_model_mirrors_follow_repo
    [of alice_follows_bob uuid_alice alice_follows_bob 2 uuid_spare "BlockAccount bob alice"
      "[AccountBlocked bob alice]" bob_blocked_alice]
    m step_bob_blocks
  have "mirrors bob_blocked_alice" by blast
  then show ?thesis
    using reachable_alice_follows_bob m step_bob_blocks
    by (simp add: alice_follows_bob_def bob_blocked_alice_def dd_val_def uuid_facts
        del: handle.simps)
qed

end
